theory Spec2Isabelle
  imports Main "HOL-Library.Word" "HOL-Library.Multiset"
begin

section \<open>Scalar types, error codes and raw memory\<close>

type_synonym uint8_t = "8 word"
type_synonym uint16_t = "16 word"
type_synonym int16_t = "16 word"
type_synonym int32_t = "32 word"

text \<open>
  \<^verbatim>\<open>enum Error : int32_t\<close> of \<^verbatim>\<open>eobject.hpp\<close>. Every \<^verbatim>\<open>get\<close>, \<^verbatim>\<open>set\<close> and
  \<^verbatim>\<open>query\<close> returns an \<^verbatim>\<open>int32_t\<close> that is either a byte count or one of these codes.
\<close>

datatype Error =
    OK | DataTypeError | ParamTooLong | ParamTooShort | ValueTooHigh | ValueTooLow
  | ObjectNotFound | FieldNotFound | ReadOnly | WriteOnly | UnableToSet

fun code :: "Error \<Rightarrow> int32_t" where
  "code OK = 0"
| "code DataTypeError = 0xC09B000A"
| "code ParamTooLong = 0xC09B000B"
| "code ParamTooShort = 0xC09B000C"
| "code ValueTooHigh = 0xC09B000F"
| "code ValueTooLow = 0xC09B0010"
| "code ObjectNotFound = 0xC09B0005"
| "code FieldNotFound = 0xC09B000D"
| "code ReadOnly = 0xC09B0004"
| "code WriteOnly = 0xC09B0003"
| "code UnableToSet = 0xC09B0008"

datatype DataType =
    DT_Invalid | DT_U8 | DT_U16 | DT_U32 | DT_I8 | DT_I16 | DT_I32
  | DT_String | DT_BinString | DT_Record

fun type_size :: "DataType \<Rightarrow> nat" where
  "type_size DT_Invalid = 0"
| "type_size DT_U8 = 1"
| "type_size DT_U16 = 2"
| "type_size DT_U32 = 4"
| "type_size DT_I8 = 1"
| "type_size DT_I16 = 2"
| "type_size DT_I32 = 4"
| "type_size DT_String = 1"
| "type_size DT_BinString = 1"
| "type_size DT_Record = 0"

text \<open>
  The template parameter \<^verbatim>\<open>T\<close> of the scalar strategies ranges over the six integer
  types for which \<^verbatim>\<open>Type_<T>\<close> is specialised.
\<close>

datatype scalar_t = T_uint8 | T_uint16 | T_uint32 | T_int8 | T_int16 | T_int32

fun sizeof :: "scalar_t \<Rightarrow> nat" where
  "sizeof T_uint8 = 1"
| "sizeof T_uint16 = 2"
| "sizeof T_uint32 = 4"
| "sizeof T_int8 = 1"
| "sizeof T_int16 = 2"
| "sizeof T_int32 = 4"

fun is_signed :: "scalar_t \<Rightarrow> bool" where
  "is_signed T_uint8 = False"
| "is_signed T_uint16 = False"
| "is_signed T_uint32 = False"
| "is_signed T_int8 = True"
| "is_signed T_int16 = True"
| "is_signed T_int32 = True"

fun Type_id :: "scalar_t \<Rightarrow> DataType" where
  "Type_id T_uint8 = DT_U8"
| "Type_id T_uint16 = DT_U16"
| "Type_id T_uint32 = DT_U32"
| "Type_id T_int8 = DT_I8"
| "Type_id T_int16 = DT_I16"
| "Type_id T_int32 = DT_I32"

text \<open>
  Backing storage is a finite block of bytes; a data pointer is an address into it and
  \<open>None\<close> is \<^verbatim>\<open>nullptr\<close>. An access that leaves the block has no defined result
  (\<open>None\<close>).
\<close>

type_synonym heap = "uint8_t list"

definition read_bytes :: "heap \<Rightarrow> nat \<Rightarrow> nat \<Rightarrow> uint8_t list option" where
  "read_bytes h p n = (if p + n \<le> length h then Some (take n (drop p h)) else None)"

definition write_bytes :: "heap \<Rightarrow> nat \<Rightarrow> uint8_t list \<Rightarrow> heap option" where
  "write_bytes h p bs =
     (if p + length bs \<le> length h then Some (take p h @ bs @ drop (p + length bs) h) else None)"

text \<open>
  \<^verbatim>\<open>*static_cast<const T*>(data)\<close>: the first \<^verbatim>\<open>sizeof(T)\<close> bytes read as a little-endian
  integer (the byte order of the targets the library is written for), two's complement
  when \<^verbatim>\<open>T\<close> is signed.
\<close>

fun le_nat :: "uint8_t list \<Rightarrow> nat" where
  "le_nat [] = 0"
| "le_nat (b # bs) = unat b + 256 * le_nat bs"

definition decode :: "scalar_t \<Rightarrow> uint8_t list \<Rightarrow> int" where
  "decode T bs =
     (let u = le_nat (take (sizeof T) bs)
      in if is_signed T \<and> 2 ^ (8 * sizeof T - 1) \<le> u then int u - 2 ^ (8 * sizeof T) else int u)"

section \<open>Object metadata\<close>

datatype ClassId = ClassId_Invalid | Variable | Array | Record

datatype Permissions =
  FactoryHidden | FactoryConfig | Hidden | UserConfig | Perm_Info | Status | Dynamic

text \<open>
  \<^verbatim>\<open>Object::SetFunctionType\<close> is a function pointer; the functions of the source that can
  be bound to it form this closed family. The template arguments become constructor
  arguments: the scalar type and its bounds, the offset of \<^verbatim>\<open>member\<close> inside
  \<^verbatim>\<open>DataClass\<close>, the string length, the external setter (which may touch the storage
  and returns its own code), and the two halves of a chain. \<open>fn_nullptr\<close> is the
  \<^verbatim>\<open>nullptr\<close> that the default \<^verbatim>\<open>Variable::Info()\<close> binds.
\<close>

datatype SetFunction =
    fn_set_default nat scalar_t int int
  | fn_set_variable scalar_t int int
  | fn_set_string_variable nat
  | fn_set_wrapper scalar_t "int \<Rightarrow> heap \<Rightarrow> int32_t \<times> heap" int int
  | fn_set_readonly
  | fn_set_chain SetFunction SetFunction
  | fn_Record_set_data
  | fn_nullptr

type_synonym RangeInfo = "int \<times> int"

record Info =
  otype :: ClassId
  type :: DataType
  nelem :: uint8_t
  perm :: Permissions
  data_offset :: uint16_t
  data_size :: uint16_t
  set_function :: SetFunction

record Variable_Info = Info +
  range_info :: RangeInfo

record FieldInfo = Variable_Info +
  name :: string

record Array_Info = Variable_Info +
  names :: "string list"

record Record_Info = Info +
  fields_r :: "FieldInfo list"

text \<open>
  \<^verbatim>\<open>const Info* obj_info\<close> points at one of the three derived structures; the code reads
  the common header through it and downcasts on \<^verbatim>\<open>otype\<close>.
\<close>

datatype Info_ptr =
    Variable_ptr Variable_Info
  | Array_ptr Array_Info
  | Record_ptr Record_Info

fun base :: "Info_ptr \<Rightarrow> Info" where
  "base (Variable_ptr v) = Info.truncate v"
| "base (Array_ptr a) = Info.truncate a"
| "base (Record_ptr r) = Info.truncate r"

text \<open>The downcasts; a cast to a type the structure does not have is undefined.\<close>

fun as_Record :: "Info_ptr \<Rightarrow> Record_Info option" where
  "as_Record (Record_ptr r) = Some r"
| "as_Record _ = None"

fun as_Array :: "Info_ptr \<Rightarrow> Array_Info option" where
  "as_Array (Array_ptr a) = Some a"
| "as_Array _ = None"

record Object =
  obj_name :: string
  obj_info :: Info_ptr
  obj_data :: "nat option"

text \<open>\<^verbatim>\<open>Object::data()\<close>; \<^verbatim>\<open>Object::data(uint16_t offset)\<close> is written out where it is used.\<close>

definition Object_data :: "Object \<Rightarrow> nat option" where
  "Object_data obj = (case obj_data obj of None \<Rightarrow> None
               | Some p \<Rightarrow> Some (p + unat (data_offset (base (obj_info obj)))))"

section \<open>Reading: \<^verbatim>\<open>Object::get\<close>\<close>

text \<open>
  A \<^verbatim>\<open>get\<close> returns its \<^verbatim>\<open>int32_t\<close> result together with the bytes it stored at the
  start of the caller's buffer; \<open>bsize\<close> (the \<^verbatim>\<open>size\<close> argument) is the capacity the caller announces.
\<close>

type_synonym get_result = "(int32_t \<times> uint8_t list) option"

text \<open>\<^verbatim>\<open>int32_t Object::get(void* buffer, size_t size)\<close>: the entire object.\<close>

definition Object_get_buffer :: "Object \<Rightarrow> nat \<Rightarrow> heap \<Rightarrow> get_result" where
  "Object_get_buffer obj bsize h =
     (case obj_data obj of None \<Rightarrow> Some (code WriteOnly, [])
      | Some p \<Rightarrow>
          let dsize = unat (data_size (base (obj_info obj)))
          in if dsize < bsize
             then (case read_bytes h (p + unat (data_offset (base (obj_info obj)))) dsize of
                     None \<Rightarrow> None
                   | Some bs \<Rightarrow> Some (of_nat dsize, bs))
             else Some (of_nat dsize, []))"

text \<open>\<^verbatim>\<open>int32_t Object::get(uint8_t subIdx, void* buffer, size_t size)\<close>.\<close>

definition Object_get :: "Object \<Rightarrow> uint8_t \<Rightarrow> nat \<Rightarrow> heap \<Rightarrow> get_result" where
  "Object_get obj subIdx bsize h =
     (case obj_data obj of None \<Rightarrow> Some (code WriteOnly, [])
      | Some p \<Rightarrow>
         (case otype (base (obj_info obj)) of
            Variable \<Rightarrow>
              if subIdx = 0 then Object_get_buffer obj bsize h else Some (code FieldNotFound, [])
          | Array \<Rightarrow>
              if subIdx \<le> nelem (base (obj_info obj)) then
                if subIdx = 0 then Some (1, [nelem (base (obj_info obj))])
                else
                  let elem_size = type_size (type (base (obj_info obj)));
                      off = (of_nat (unat (data_offset (base (obj_info obj)))
                                     + elem_size * (unat subIdx - 1)) :: uint16_t)
                  in (case read_bytes h (p + unat off) elem_size of
                        None \<Rightarrow> None
                      | Some bs \<Rightarrow> Some (of_nat elem_size, bs))
              else Some (code FieldNotFound, [])
          | Record \<Rightarrow>
              if subIdx \<le> nelem (base (obj_info obj)) then
                if subIdx = 0 then Some (1, [nelem (base (obj_info obj))])
                else
                  (case as_Record (obj_info obj) of None \<Rightarrow> None
                   | Some rinfo \<Rightarrow>
                      if unat subIdx - 1 < length (fields_r rinfo) then
                        let info = fields_r rinfo ! (unat subIdx - 1);
                            dsize = unat (data_size info)
                        in if dsize > bsize then Some (code ParamTooShort, [])
                           else (case read_bytes h (p + unat (data_offset info)) dsize of
                                   None \<Rightarrow> None
                                 | Some bs \<Rightarrow> Some (of_nat dsize, bs))
                      else None)
              else Some (code FieldNotFound, [])
          | ClassId_Invalid \<Rightarrow> Some (code ObjectNotFound, [])))"

section \<open>Reflection: \<^verbatim>\<open>Object::info(uint8_t)\<close>\<close>

text \<open>
  \<^verbatim>\<open>Object::FieldInfo\<close>: the header the result points at, the name pointer
  (\<open>None\<close> is \<^verbatim>\<open>nullptr\<close>), offset and size. The aggregate is initialised with
  \<^verbatim>\<open>{ &info(), nullptr }\<close>, which zeroes the two numbers.
\<close>

record Object_FieldInfo =
  finfo_info :: Info
  finfo_name :: "string option"
  finfo_offset :: uint16_t
  finfo_size :: uint16_t

definition valid :: "Object_FieldInfo \<Rightarrow> bool" where
  "valid finfo = (finfo_name finfo \<noteq> None)"

definition Object_info :: "Object \<Rightarrow> uint8_t \<Rightarrow> Object_FieldInfo option" where
  "Object_info obj subIdx =
     (let hdr = base (obj_info obj);
          finfo = \<lparr>finfo_info = hdr, finfo_name = None, finfo_offset = 0, finfo_size = 0\<rparr>
      in if subIdx > 0 \<and> subIdx \<le> nelem hdr then
           let finfo = finfo\<lparr>finfo_offset := data_offset hdr, finfo_size := data_size hdr\<rparr>
           in (case otype hdr of
                 Record \<Rightarrow>
                   (case as_Record (obj_info obj) of None \<Rightarrow> None
                    | Some rinfo \<Rightarrow>
                        if unat subIdx - 1 < length (fields_r rinfo) then
                          let temp = fields_r rinfo ! (unat subIdx - 1)
                          in Some (finfo\<lparr>finfo_info := Info.truncate temp,
                                         finfo_name := Some (name temp),
                                         finfo_size := data_size temp\<rparr>)
                        else None)
               | Array \<Rightarrow>
                   (case as_Array (obj_info obj) of None \<Rightarrow> None
                    | Some ainfo \<Rightarrow>
                        if unat subIdx - 1 < length (names ainfo) then
                          let temp = names ainfo ! (unat subIdx - 1);
                              fsize = (of_nat (type_size (type hdr)) :: uint16_t)
                          in Some (finfo\<lparr>finfo_name := Some temp,
                                         finfo_size := fsize,
                                         finfo_offset := data_offset hdr + fsize * (ucast subIdx - 1)\<rparr>)
                        else None)
               | _ \<Rightarrow> Some finfo)
         else Some finfo)"

section \<open>Writing: the set strategies and \<^verbatim>\<open>Object::set\<close>\<close>

text \<open>
  A \<^verbatim>\<open>set\<close> takes the caller's bytes (\<open>None\<close> for a null pointer; the caller
  guarantees that at least \<open>bsize\<close> bytes stand behind a non-null pointer) and the
  storage, and returns its \<^verbatim>\<open>int32_t\<close> result with the storage it leaves. \<open>None\<close>
  is a call with no defined result: a write through a null or dangling pointer, or a
  recursion that never returns.
\<close>

type_synonym set_result = "(int32_t \<times> heap) option"

text \<open>\<^verbatim>\<open>Object::detail::check<T>(min, max, data, size)\<close>.\<close>

definition check :: "scalar_t \<Rightarrow> int \<Rightarrow> int \<Rightarrow> uint8_t list option \<Rightarrow> nat \<Rightarrow> int32_t" where
  "check T vmin vmax data bsize =
     (if bsize > sizeof T then code ParamTooLong
      else if bsize < sizeof T then code ParamTooShort
      else (case data of
              None \<Rightarrow> code DataTypeError
            | Some bs \<Rightarrow>
                if vmin \<noteq> vmax then
                  (let v = decode T bs
                   in if v < vmin then code ValueTooLow
                      else if v > vmax then code ValueTooHigh
                      else code OK)
                else code OK))"

text \<open>The assignment \<^verbatim>\<open>*static_cast<T*>(dest) = *static_cast<const T*>(data)\<close>.\<close>

definition store_scalar :: "scalar_t \<Rightarrow> nat option \<Rightarrow> uint8_t list option \<Rightarrow> heap \<Rightarrow> set_result" where
  "store_scalar T dest data h =
     (case (dest, data) of
        (Some p, Some bs) \<Rightarrow>
          (case write_bytes h p (take (sizeof T) bs) of
             None \<Rightarrow> None
           | Some h' \<Rightarrow> Some (code OK, h'))
      | _ \<Rightarrow> None)"

definition set_default ::
  "nat \<Rightarrow> scalar_t \<Rightarrow> int \<Rightarrow> int \<Rightarrow> Object \<Rightarrow> uint8_t \<Rightarrow> uint8_t list option \<Rightarrow> nat \<Rightarrow> heap \<Rightarrow> set_result"
where
  "set_default member T vmin vmax object subIdx data bsize h =
     (let e = check T vmin vmax data bsize
      in if e \<noteq> code OK then Some (e, h)
         else store_scalar T (map_option (\<lambda>p. p + member) (Object_data object)) data h)"

definition set_variable ::
  "scalar_t \<Rightarrow> int \<Rightarrow> int \<Rightarrow> Object \<Rightarrow> uint8_t \<Rightarrow> uint8_t list option \<Rightarrow> nat \<Rightarrow> heap \<Rightarrow> set_result"
where
  "set_variable T vmin vmax object subIdx data bsize h =
     (let e = check T vmin vmax data bsize
      in if e \<noteq> code OK then Some (e, h)
         else store_scalar T (Object_data object) data h)"

definition set_string_variable ::
  "nat \<Rightarrow> Object \<Rightarrow> uint8_t \<Rightarrow> uint8_t list option \<Rightarrow> nat \<Rightarrow> heap \<Rightarrow> set_result"
where
  "set_string_variable Length object subIdx data bsize h =
     (if bsize > Length then Some (code ParamTooLong, h)
      else
        (case (if bsize = Length
               then (case data of
                       Some bs \<Rightarrow> if 0 < bsize \<and> bsize \<le> length bs
                                   then Some (bs ! (bsize - 1) \<noteq> 0) else None
                     | None \<Rightarrow> None)
               else Some False) of
           None \<Rightarrow> None
         | Some True \<Rightarrow> Some (code ParamTooLong, h)
         | Some False \<Rightarrow>
             (case (Object_data object, data) of
                (Some dest, Some bs) \<Rightarrow>
                  (case write_bytes h dest (take bsize bs @ replicate (Length - bsize) 0) of
                     None \<Rightarrow> None
                   | Some h' \<Rightarrow> Some (code OK, h'))
              | _ \<Rightarrow> None)))"

definition set_wrapper ::
  "scalar_t \<Rightarrow> (int \<Rightarrow> heap \<Rightarrow> int32_t \<times> heap) \<Rightarrow> int \<Rightarrow> int \<Rightarrow> Object \<Rightarrow> uint8_t
     \<Rightarrow> uint8_t list option \<Rightarrow> nat \<Rightarrow> heap \<Rightarrow> set_result"
where
  "set_wrapper T setf vmin vmax object subIdx data bsize h =
     (let e = check T vmin vmax data bsize
      in if e \<noteq> code OK then Some (e, h)
         else (case data of None \<Rightarrow> None | Some bs \<Rightarrow> Some (setf (decode T bs) h)))"

definition set_readonly ::
  "Object \<Rightarrow> uint8_t \<Rightarrow> uint8_t list option \<Rightarrow> nat \<Rightarrow> heap \<Rightarrow> set_result"
where
  "set_readonly object subIdx data bsize h = Some (code ReadOnly, h)"

text \<open>
  Calling through a \<^verbatim>\<open>SetFunctionType\<close> from inside \<^verbatim>\<open>Record::detail::set_data\<close>.
  A field that binds \<^verbatim>\<open>Record::detail::set_data\<close> itself is called again with the very
  same arguments and never returns. The same value, no result, is given to a chain that
  re-enters \<^verbatim>\<open>set_data\<close> from one of its halves; the statements below are about field
  functions that do not re-enter it (\<open>no_dispatch\<close>).
\<close>

primrec call_field ::
  "SetFunction \<Rightarrow> Object \<Rightarrow> uint8_t \<Rightarrow> uint8_t list option \<Rightarrow> nat \<Rightarrow> heap \<Rightarrow> set_result"
where
  "call_field (fn_set_default member T vmin vmax) obj subIdx data bsize h =
     set_default member T vmin vmax obj subIdx data bsize h"
| "call_field (fn_set_variable T vmin vmax) obj subIdx data bsize h =
     set_variable T vmin vmax obj subIdx data bsize h"
| "call_field (fn_set_string_variable Length) obj subIdx data bsize h =
     set_string_variable Length obj subIdx data bsize h"
| "call_field (fn_set_wrapper T setf vmin vmax) obj subIdx data bsize h =
     set_wrapper T setf vmin vmax obj subIdx data bsize h"
| "call_field fn_set_readonly obj subIdx data bsize h = set_readonly obj subIdx data bsize h"
| "call_field (fn_set_chain f1 f2) obj subIdx data bsize h =
     (case call_field f1 obj subIdx data bsize h of
        None \<Rightarrow> None
      | Some (ret, h1) \<Rightarrow>
          if ret = code OK then call_field f2 obj subIdx data bsize h1 else Some (ret, h1))"
| "call_field fn_Record_set_data obj subIdx data bsize h = None"
| "call_field fn_nullptr obj subIdx data bsize h = None"

text \<open>\<^verbatim>\<open>Record::detail::set_data\<close>.\<close>

definition Record_set_data ::
  "Object \<Rightarrow> uint8_t \<Rightarrow> uint8_t list option \<Rightarrow> nat \<Rightarrow> heap \<Rightarrow> set_result"
where
  "Record_set_data obj subIdx data bsize h =
     (if otype (base (obj_info obj)) \<noteq> Record \<or> subIdx > nelem (base (obj_info obj))
      then Some (code FieldNotFound, h)
      else if subIdx = 0 then Some (code ReadOnly, h)
      else (case as_Record (obj_info obj) of
              None \<Rightarrow> None
            | Some rinfo \<Rightarrow>
                if unat subIdx - 1 < length (fields_r rinfo)
                then call_field (set_function (fields_r rinfo ! (unat subIdx - 1)))
                       obj subIdx data bsize h
                else None))"

text \<open>Calling through the \<^verbatim>\<open>set_function\<close> of an object's own \<^verbatim>\<open>Info\<close>.\<close>

primrec call ::
  "SetFunction \<Rightarrow> Object \<Rightarrow> uint8_t \<Rightarrow> uint8_t list option \<Rightarrow> nat \<Rightarrow> heap \<Rightarrow> set_result"
where
  "call (fn_set_default member T vmin vmax) obj subIdx data bsize h =
     set_default member T vmin vmax obj subIdx data bsize h"
| "call (fn_set_variable T vmin vmax) obj subIdx data bsize h =
     set_variable T vmin vmax obj subIdx data bsize h"
| "call (fn_set_string_variable Length) obj subIdx data bsize h =
     set_string_variable Length obj subIdx data bsize h"
| "call (fn_set_wrapper T setf vmin vmax) obj subIdx data bsize h =
     set_wrapper T setf vmin vmax obj subIdx data bsize h"
| "call fn_set_readonly obj subIdx data bsize h = set_readonly obj subIdx data bsize h"
| "call (fn_set_chain f1 f2) obj subIdx data bsize h =
     (case call f1 obj subIdx data bsize h of
        None \<Rightarrow> None
      | Some (ret, h1) \<Rightarrow>
          if ret = code OK then call f2 obj subIdx data bsize h1 else Some (ret, h1))"
| "call fn_Record_set_data obj subIdx data bsize h = Record_set_data obj subIdx data bsize h"
| "call fn_nullptr obj subIdx data bsize h = None"

text \<open>\<^verbatim>\<open>int32_t Object::set(uint8_t subIdx, const void* data, size_t size)\<close>.\<close>

definition Object_set ::
  "Object \<Rightarrow> uint8_t \<Rightarrow> uint8_t list option \<Rightarrow> nat \<Rightarrow> heap \<Rightarrow> set_result"
where
  "Object_set obj subIdx data bsize h =
     call (set_function (base (obj_info obj))) obj subIdx data bsize h"

section \<open>Building metadata\<close>

text \<open>\<^verbatim>\<open>Variable::Info::Info<T>(perm, offset, setf, min, max)\<close>.\<close>

definition Variable_Info_ctor ::
  "scalar_t \<Rightarrow> Permissions \<Rightarrow> uint16_t \<Rightarrow> SetFunction \<Rightarrow> int \<Rightarrow> int \<Rightarrow> Variable_Info" where
  "Variable_Info_ctor T perm_in offset setf vmin vmax =
     \<lparr>otype = Variable, type = Type_id T, nelem = 1, perm = perm_in, data_offset = offset,
      data_size = of_nat (sizeof T), set_function = setf, range_info = (vmin, vmax)\<rparr>"

text \<open>\<^verbatim>\<open>Variable::make_info<T, min, max>(perm)\<close> with its default strategy.\<close>

definition Variable_make_info :: "scalar_t \<Rightarrow> int \<Rightarrow> int \<Rightarrow> Permissions \<Rightarrow> Variable_Info" where
  "Variable_make_info T vmin vmax perm_in =
     Variable_Info_ctor T perm_in 0 (fn_set_variable T vmin vmax) vmin vmax"

text \<open>\<^verbatim>\<open>Variable::make_string_info<Length>(perm)\<close> with its default strategy.\<close>

definition Variable_make_string_info :: "nat \<Rightarrow> Permissions \<Rightarrow> Variable_Info" where
  "Variable_make_string_info Length perm_in =
     \<lparr>otype = Variable, type = DT_String, nelem = 1, perm = perm_in, data_offset = 0,
      data_size = of_nat Length, set_function = fn_set_string_variable Length,
      range_info = (0, 0)\<rparr>"

text \<open>
  \<^verbatim>\<open>Array::make_info<Count>(perm, offset, member, names_in, setf_in, min, max)\<close>: the
  array-hack tail \<^verbatim>\<open>names_n\<close> continues \<^verbatim>\<open>names[1]\<close>, so the names form one sequence.
\<close>

definition Array_make_info ::
  "nat \<Rightarrow> scalar_t \<Rightarrow> Permissions \<Rightarrow> uint16_t \<Rightarrow> string list \<Rightarrow> SetFunction \<Rightarrow> int \<Rightarrow> int
     \<Rightarrow> Array_Info" where
  "Array_make_info Count T perm_in offset names_in setf_in vmin vmax =
     \<lparr>otype = Array, type = Type_id T, nelem = of_nat Count, perm = perm_in,
      data_offset = offset, data_size = of_nat (sizeof T * Count), set_function = setf_in,
      range_info = (vmin, vmax), names = names_in\<rparr>"

text \<open>\<^verbatim>\<open>Record::FieldInfo::FieldInfo<T>(perm, nameIn, offset, setf, min, max)\<close>.\<close>

definition FieldInfo_ctor ::
  "scalar_t \<Rightarrow> Permissions \<Rightarrow> string \<Rightarrow> uint16_t \<Rightarrow> SetFunction \<Rightarrow> int \<Rightarrow> int \<Rightarrow> FieldInfo" where
  "FieldInfo_ctor T perm_in nameIn offset setf vmin vmax =
     \<lparr>otype = Variable, type = Type_id T, nelem = 1, perm = perm_in, data_offset = offset,
      data_size = of_nat (sizeof T), set_function = setf, range_info = (vmin, vmax),
      name = nameIn\<rparr>"

text \<open>
  \<^verbatim>\<open>Record::FieldList<Count, Offset, Size>\<close>; \<^verbatim>\<open>field\<close> appends one field and fails to
  compile (\<open>None\<close>) when its \<^verbatim>\<open>static_assert\<close> sees a gap. \<open>member\<close> is the byte offset
  of the pointed-to member inside \<^verbatim>\<open>DataClass\<close>; \<open>setf = None\<close> takes the default argument.
\<close>

record FieldList =
  fields_arr :: "FieldInfo list"
  Offset :: nat
  Size :: nat

definition Record_fields :: FieldList where
  "Record_fields = \<lparr>fields_arr = [], Offset = 0, Size = 0\<rparr>"

definition field ::
  "FieldList \<Rightarrow> nat \<Rightarrow> scalar_t \<Rightarrow> nat \<Rightarrow> int \<Rightarrow> int \<Rightarrow> Permissions \<Rightarrow> string
     \<Rightarrow> SetFunction option \<Rightarrow> FieldList option"
where
  "field fl member T offset vmin vmax perm_in name_in setf =
     (let Count = length (fields_arr fl)
      in if Count = 0 \<or> offset = Size fl + Offset fl then
           Some \<lparr>fields_arr = fields_arr fl @
                    [FieldInfo_ctor T perm_in name_in (of_nat offset)
                       (case setf of None \<Rightarrow> fn_set_default member T vmin vmax
                        | Some f \<Rightarrow> f) vmin vmax],
                 Offset = (if Count = 0 then offset else Offset fl),
                 Size = (if Count = 0 then sizeof T else Size fl + sizeof T)\<rparr>
         else None)"

text \<open>
  \<^verbatim>\<open>FieldList::setter_field<T, setf, offset, min, max>(perm, name)\<close>: the same, with the
  field bound to \<^verbatim>\<open>set_wrapper<T, setf, min, max>\<close>.
\<close>

definition setter_field ::
  "FieldList \<Rightarrow> scalar_t \<Rightarrow> (int \<Rightarrow> heap \<Rightarrow> int32_t \<times> heap) \<Rightarrow> nat \<Rightarrow> int \<Rightarrow> int \<Rightarrow> Permissions
     \<Rightarrow> string \<Rightarrow> FieldList option"
where
  "setter_field fl T setf offset vmin vmax perm_in name_in =
     (let Count = length (fields_arr fl)
      in if Count = 0 \<or> offset = Size fl + Offset fl then
           Some \<lparr>fields_arr = fields_arr fl @
                    [FieldInfo_ctor T perm_in name_in (of_nat offset)
                       (fn_set_wrapper T setf vmin vmax) vmin vmax],
                 Offset = (if Count = 0 then offset else Offset fl),
                 Size = (if Count = 0 then sizeof T else Size fl + sizeof T)\<rparr>
         else None)"

text \<open>\<^verbatim>\<open>Record::make_info(perm, fields)\<close> with its default strategy.\<close>

definition Record_make_info :: "Permissions \<Rightarrow> FieldList \<Rightarrow> Record_Info" where
  "Record_make_info perm_in fl =
     \<lparr>otype = Record, type = DT_Record, nelem = of_nat (length (fields_arr fl)),
      perm = perm_in, data_offset = of_nat (Offset fl), data_size = of_nat (Size fl),
      set_function = fn_Record_set_data, fields_r = fields_arr fl\<rparr>"

section \<open>String views\<close>

text \<open>
  A \<^verbatim>\<open>string_view\<close> is the sequence of characters it views. \<^verbatim>\<open>char\<close> values are
  compared through their code points.
\<close>

definition isspace :: "char \<Rightarrow> bool" where
  "isspace c = ((9 \<le> (of_char c :: nat) \<and> (of_char c :: nat) \<le> 13) \<or> c = CHR '' '')"

definition issep :: "char \<Rightarrow> bool" where
  "issep c = (c = CHR ''.'' \<or> c = CHR '':'' \<or> c = CHR ''/'')"

definition tolower :: "char \<Rightarrow> char" where
  "tolower c =
     (if (of_char (CHR ''A'') :: nat) \<le> of_char c \<and> (of_char c :: nat) \<le> of_char (CHR ''Z'')
      then char_of ((of_char c :: nat) + (of_char (CHR ''a'') - of_char (CHR ''A'')))
      else c)"

text \<open>\<^verbatim>\<open>string_view::compare\<close>: the loop over the common prefix, then the lengths.\<close>

fun compare_loop :: "string \<Rightarrow> string \<Rightarrow> int" where
  "compare_loop (a # s1) (b # s2) =
     (if (of_char (tolower a) :: nat) < of_char (tolower b) then - 1
      else if (of_char (tolower a) :: nat) > of_char (tolower b) then 1
      else compare_loop s1 s2)"
| "compare_loop _ _ = 0"

definition compare :: "string \<Rightarrow> string \<Rightarrow> int" where
  "compare s other =
     (let n = (if length s < length other then length s else length other);
          r = compare_loop (take n s) (take n other)
      in if r \<noteq> 0 then r
         else if length s = length other then 0
         else if length s < length other then - 1 else 1)"

text \<open>\<^verbatim>\<open>operator==\<close> on string views.\<close>

definition sv_eq :: "string \<Rightarrow> string \<Rightarrow> bool" where
  "sv_eq lhs rhs = (compare lhs rhs = 0)"

text \<open>
  \<^verbatim>\<open>estd::find_if\<close> and \<^verbatim>\<open>estd::find_if_not\<close>, returning how far the iterator
  advanced from \<^verbatim>\<open>first\<close>.
\<close>

fun find_if :: "('a \<Rightarrow> bool) \<Rightarrow> 'a list \<Rightarrow> nat" where
  "find_if pred [] = 0"
| "find_if pred (x # xs) = (if \<not> pred x then Suc (find_if pred xs) else 0)"

fun find_if_not :: "('a \<Rightarrow> bool) \<Rightarrow> 'a list \<Rightarrow> nat" where
  "find_if_not pred [] = 0"
| "find_if_not pred (x # xs) = (if pred x then Suc (find_if_not pred xs) else 0)"

definition remove_prefix :: "string \<Rightarrow> nat \<Rightarrow> string" where
  "remove_prefix str n = (if n \<le> length str then drop n str else str)"

definition remove_suffix :: "string \<Rightarrow> nat \<Rightarrow> string" where
  "remove_suffix str n = (if n \<le> length str then take (length str - n) str else str)"

definition trim_prefix :: "string \<Rightarrow> (char \<Rightarrow> bool) \<Rightarrow> string" where
  "trim_prefix str pred = remove_prefix str (find_if_not pred str)"

text \<open>
  \<^verbatim>\<open>trim_suffix\<close> walks back from the end while the predicate holds; that count is the
  run of matching characters at the front of the reversed view.
\<close>

definition trim_suffix :: "string \<Rightarrow> (char \<Rightarrow> bool) \<Rightarrow> string" where
  "trim_suffix str pred = remove_suffix str (find_if_not pred (rev str))"

text \<open>\<^verbatim>\<open>estd::next_token\<close>: the token and the advanced input view.\<close>

definition next_token :: "string \<Rightarrow> (char \<Rightarrow> bool) \<Rightarrow> string \<times> string" where
  "next_token str pred =
     (let str1 = trim_prefix str pred;
          stop = length str1;
          loc = find_if pred str1;
          str2 = (if loc < stop then remove_prefix str1 (loc + 1) else remove_prefix str1 loc)
      in (take loc str1, str2))"

section \<open>The dictionary\<close>

record Item =
  address :: uint16_t
  pdo_mapping :: uint16_t
  object :: Object

record Dictionary =
  count_d :: nat
  items :: "Item list"

text \<open>
  \<^verbatim>\<open>Dictionary::Query\<close>. The constructor leaves \<^verbatim>\<open>item\<close> uninitialised; \<^verbatim>\<open>query\<close>
  assigns it before anything reads it, so the model starts it at \<open>None\<close>.
\<close>

record Query =
  object_name :: string
  subobject_name :: string
  item :: "Item option"
  info :: "Info option"
  subIdx :: int16_t

text \<open>\<^verbatim>\<open>Query::Query(string_view& str)\<close>: the query and the advanced input view.\<close>

definition Query_ctor :: "string \<Rightarrow> Query \<times> string" where
  "Query_ctor str =
     (let (tok1, str1) = next_token str issep;
          (tok2, str2) = next_token str1 issep
      in (\<lparr>object_name = trim_prefix tok1 isspace,
           subobject_name = trim_suffix tok2 isspace,
           item = None, info = None, subIdx = - 1\<rparr>, str2))"

text \<open>
  \<^verbatim>\<open>Array::Info::find\<close> and \<^verbatim>\<open>Record::Info::find\<close>: the index of the first name that
  compares equal, or \<^verbatim>\<open>nelem\<close>.
\<close>

fun find_name :: "string list \<Rightarrow> string \<Rightarrow> nat \<Rightarrow> nat option" where
  "find_name [] nm it = None"
| "find_name (n # ns) nm it = (if sv_eq n nm then Some it else find_name ns nm (it + 1))"

definition Array_Info_find :: "Array_Info \<Rightarrow> string \<Rightarrow> uint8_t" where
  "Array_Info_find ainfo nm =
     (case find_name (take (unat (nelem ainfo)) (names ainfo)) nm 0 of
        Some it \<Rightarrow> of_nat it
      | None \<Rightarrow> nelem ainfo)"

definition Record_Info_find :: "Record_Info \<Rightarrow> string \<Rightarrow> nat" where
  "Record_Info_find rinfo nm =
     (case find_name (map name (take (unat (nelem rinfo)) (fields_r rinfo))) nm 0 of
        Some it \<Rightarrow> it
      | None \<Rightarrow> unat (nelem rinfo))"

text \<open>\<^verbatim>\<open>Dictionary::find\<close>: linear scan by object name.\<close>

definition Dictionary_find :: "Dictionary \<Rightarrow> string \<Rightarrow> Item option" where
  "Dictionary_find d nm =
     find (\<lambda>it. sv_eq (obj_name (object it)) nm) (take (count_d d) (items d))"

text \<open>\<^verbatim>\<open>Dictionary::query\<close>: the result code and the query as the call leaves it.\<close>

definition Dictionary_query :: "Dictionary \<Rightarrow> Query \<Rightarrow> (int32_t \<times> Query) option" where
  "Dictionary_query d q0 =
     (let q = q0\<lparr>item := Dictionary_find d (object_name q0)\<rparr>
      in case item q of
           None \<Rightarrow> Some (code ObjectNotFound, q)
         | Some it \<Rightarrow>
             if subobject_name q \<noteq> [] then
               if otype (base (obj_info (object it))) = Record then
                 (case as_Record (obj_info (object it)) of
                    None \<Rightarrow> None
                  | Some rinfo \<Rightarrow>
                      let finfo = Record_Info_find rinfo (subobject_name q)
                      in if finfo \<noteq> unat (nelem rinfo) then
                           if finfo < length (fields_r rinfo) then
                             Some (code OK,
                                   q\<lparr>info := Some (Info.truncate (fields_r rinfo ! finfo)),
                                     subIdx := of_nat finfo + 1\<rparr>)
                           else None
                         else Some (code FieldNotFound, q))
               else if otype (base (obj_info (object it))) = Array then
                 (case as_Array (obj_info (object it)) of
                    None \<Rightarrow> None
                  | Some ainfo \<Rightarrow>
                      let q = q\<lparr>subIdx := ucast (Array_Info_find ainfo (subobject_name q)) + 1,
                                info := Some (Info.truncate ainfo)\<rparr>
                      in if subIdx q \<noteq> ucast (nelem ainfo) then Some (code OK, q)
                         else Some (code FieldNotFound, q))
               else Some (code FieldNotFound, q)
             else Some (code OK, q\<lparr>info := Some (base (obj_info (object it)))\<rparr>))"

subsection \<open>Sorting at construction: \<^verbatim>\<open>estd::sort\<close>\<close>

text \<open>
  The array is a list and iterators are indices. \<^verbatim>\<open>__sift_down\<close> first decides whether
  anything moves, then runs its \<^verbatim>\<open>do ... while\<close> loop, which carries the lifted value
  \<open>topv\<close> (the local \<^verbatim>\<open>top\<close>) and leaves a hole at \<open>start\<close>.
\<close>

function sift_down_loop ::
  "('a \<Rightarrow> 'a \<Rightarrow> bool) \<Rightarrow> nat \<Rightarrow> 'a \<Rightarrow> 'a list \<Rightarrow> nat \<Rightarrow> nat \<Rightarrow> 'a list" where
  "sift_down_loop cmp len topv xs start child =
     (let xs1 = xs[start := xs ! child]
      in if (len - 2) div 2 < child then xs1[child := topv]
         else
           let child1 = 2 * child + 1;
               child2 = (if child1 + 1 < len \<and> cmp (xs1 ! child1) (xs1 ! (child1 + 1))
                         then child1 + 1 else child1)
           in if \<not> cmp (xs1 ! child2) topv
              then sift_down_loop cmp len topv xs1 child child2
              else xs1[child := topv])"
  by pat_completeness auto
termination
  by (relation "measure (\<lambda>(cmp, len, topv, xs, start, child). len + 3 - child)") auto

definition sift_down :: "('a \<Rightarrow> 'a \<Rightarrow> bool) \<Rightarrow> 'a list \<Rightarrow> nat \<Rightarrow> nat \<Rightarrow> 'a list" where
  "sift_down cmp xs len start =
     (if len < 2 \<or> (len - 2) div 2 < start then xs
      else
        let child1 = 2 * start + 1;
            child = (if child1 + 1 < len \<and> cmp (xs ! child1) (xs ! (child1 + 1))
                     then child1 + 1 else child1)
        in if cmp (xs ! child) (xs ! start) then xs
           else sift_down_loop cmp len (xs ! start) xs start child)"

definition iter_swap :: "'a list \<Rightarrow> nat \<Rightarrow> nat \<Rightarrow> 'a list" where
  "iter_swap xs a b = (let temp = xs ! a in (xs[a := xs ! b])[b := temp])"

definition pop_heap :: "('a \<Rightarrow> 'a \<Rightarrow> bool) \<Rightarrow> 'a list \<Rightarrow> nat \<Rightarrow> 'a list" where
  "pop_heap cmp xs len =
     (if len > 1 then sift_down cmp (iter_swap xs 0 (len - 1)) (len - 1) 0 else xs)"

text \<open>The loop of \<^verbatim>\<open>make_heap\<close>, counting \<open>start\<close> down to 0.\<close>

primrec make_heap_loop :: "('a \<Rightarrow> 'a \<Rightarrow> bool) \<Rightarrow> nat \<Rightarrow> nat \<Rightarrow> 'a list \<Rightarrow> 'a list" where
  "make_heap_loop cmp N 0 xs = sift_down cmp xs N 0"
| "make_heap_loop cmp N (Suc start) xs =
     make_heap_loop cmp N start (sift_down cmp xs N (Suc start))"

definition make_heap :: "('a \<Rightarrow> 'a \<Rightarrow> bool) \<Rightarrow> 'a list \<Rightarrow> 'a list" where
  "make_heap cmp xs =
     (let N = length xs in if N < 1 then xs else make_heap_loop cmp N ((N - 2) div 2) xs)"

function sort_heap_loop :: "('a \<Rightarrow> 'a \<Rightarrow> bool) \<Rightarrow> 'a list \<Rightarrow> nat \<Rightarrow> 'a list" where
  "sort_heap_loop cmp xs n =
     (if n > 1 then sort_heap_loop cmp (pop_heap cmp xs n) (n - 1) else xs)"
  by pat_completeness auto
termination
  by (relation "measure (\<lambda>(cmp, xs, n). n)") auto

definition sort_heap :: "('a \<Rightarrow> 'a \<Rightarrow> bool) \<Rightarrow> 'a list \<Rightarrow> 'a list" where
  "sort_heap cmp xs = sort_heap_loop cmp xs (length xs)"

definition sort_range :: "('a \<Rightarrow> 'a \<Rightarrow> bool) \<Rightarrow> 'a list \<Rightarrow> 'a list" where
  "sort_range cmp xs = sort_heap cmp (make_heap cmp xs)"

definition compare_address :: "Item \<Rightarrow> Item \<Rightarrow> bool" where
  "compare_address l r = (address l < address r)"

text \<open>
  \<^verbatim>\<open>TDictionary<Count>::TDictionary(objects)\<close>: sorts, then stores the sorted items
  (\<^verbatim>\<open>items[1]\<close> continued by \<^verbatim>\<open>items_n\<close>) and the count.
\<close>

definition TDictionary :: "Item list \<Rightarrow> Dictionary" where
  "TDictionary objects =
     \<lparr>count_d = length objects, items = sort_range compare_address objects\<rparr>"

subsection \<open>Lookup by address: \<^verbatim>\<open>estd::lower_bound\<close> and \<^verbatim>\<open>Dictionary::get\<close>\<close>

function lower_bound ::
  "'a list \<Rightarrow> nat \<Rightarrow> nat \<Rightarrow> 'v \<Rightarrow> ('a \<Rightarrow> 'v \<Rightarrow> bool) \<Rightarrow> nat" where
  "lower_bound xs first cnt v cmp =
     (if cnt > 0 then
        let step = cnt div 2;
            it = first + step
        in if cmp (xs ! it) v then lower_bound xs (it + 1) (cnt - (step + 1)) v cmp
           else lower_bound xs first step v cmp
      else first)"
  by pat_completeness auto
termination
  by (relation "measure (\<lambda>(xs, first, cnt, v, cmp). cnt)") auto

definition Dictionary_get :: "Dictionary \<Rightarrow> uint16_t \<Rightarrow> Object option" where
  "Dictionary_get d addr =
     (let it = lower_bound (items d) 0 (count_d d) addr (\<lambda>l a. address l < a)
      in if it \<noteq> count_d d \<and> address (items d ! it) = addr
         then Some (object (items d ! it)) else None)"

section \<open>Example objects\<close>

text \<open>
  Concrete objects for the closed statements below, each built with the constructors
  above and bound to storage at address 0: a 16-bit variable without bounds, one with
  the bounds \<open>-40 .. 125\<close>, an array of two named bytes registered in a dictionary, the
  record \<open>status\<close> with a bounded 16-bit field \<open>temp\<close> and a read-only byte \<open>flags\<close>,
  and a string of length 4; further objects follow with a note of their own.
\<close>

definition speed_obj :: Object where
  "speed_obj = \<lparr>obj_name = ''speed'',
                obj_info = Variable_ptr (Variable_make_info T_uint16 0 0 UserConfig),
                obj_data = Some 0\<rparr>"

definition level_obj :: Object where
  "level_obj = \<lparr>obj_name = ''level'',
                obj_info = Variable_ptr (Variable_make_info T_int16 (- 40) 125 UserConfig),
                obj_data = Some 0\<rparr>"

definition gains_obj :: Object where
  "gains_obj = \<lparr>obj_name = ''gains'',
                obj_info = Array_ptr (Array_make_info 2 T_uint8 UserConfig 0 [''p'', ''d'']
                                        (fn_set_variable T_uint8 0 0) 0 0),
                obj_data = Some 0\<rparr>"

definition gains_dict :: Dictionary where
  "gains_dict = TDictionary [\<lparr>address = 0x2001, pdo_mapping = 0, object = gains_obj\<rparr>]"

definition status_fields :: "FieldList option" where
  "status_fields =
     Option.bind (field Record_fields 0 T_int16 0 (- 40) 125 UserConfig ''temp'' None)
       (\<lambda>fl. field fl 2 T_uint8 2 0 0 Perm_Info ''flags'' (Some fn_set_readonly))"

definition status_info :: Record_Info where
  "status_info =
     (case status_fields of
        Some fl \<Rightarrow> Record_make_info UserConfig fl
      | None \<Rightarrow> Record_make_info UserConfig Record_fields)"

definition status_obj :: Object where
  "status_obj = \<lparr>obj_name = ''status'', obj_info = Record_ptr status_info, obj_data = Some 0\<rparr>"

definition label_obj :: Object where
  "label_obj = \<lparr>obj_name = ''label'',
                obj_info = Variable_ptr (Variable_make_string_info 4 UserConfig),
                obj_data = Some 0\<rparr>"

text \<open>A read-only 32-bit variable.\<close>

definition serial_obj :: Object where
  "serial_obj = \<lparr>obj_name = ''serial'',
                 obj_info = Variable_ptr
                   (Variable_Info_ctor T_uint32 Perm_Info 0 fn_set_readonly 0 0),
                 obj_data = Some 0\<rparr>"

text \<open>
  An array of two bytes that is the member at offset 65535 of its data class: the second
  element lies at offset 65536.
\<close>

definition far_obj :: Object where
  "far_obj = \<lparr>obj_name = ''far'',
              obj_info = Array_ptr (Array_make_info 2 T_uint8 UserConfig 65535 [''lo'', ''hi'']
                                      (fn_set_variable T_uint8 0 0) 0 0),
              obj_data = Some 0\<rparr>"

text \<open>
  A byte whose strategy chains the plain scalar store with an external setter; the
  setter here refuses every value and touches nothing.
\<close>

definition reject_setter :: "int \<Rightarrow> heap \<Rightarrow> int32_t \<times> heap" where
  "reject_setter v h = (code UnableToSet, h)"

definition valve_obj :: Object where
  "valve_obj = \<lparr>obj_name = ''valve'',
                obj_info = Variable_ptr (Variable_Info_ctor T_uint8 UserConfig 0
                   (fn_set_chain (fn_set_variable T_uint8 0 0)
                                 (fn_set_wrapper T_uint8 reject_setter 0 0)) 0 0),
                obj_data = Some 0\<rparr>"

text \<open>
  The record \<open>drive\<close> of six bytes, one field for each kind of set function: the default
  of \<^verbatim>\<open>field\<close> with the bounds \<open>0 .. 3\<close>, \<^verbatim>\<open>set_variable\<close>, \<^verbatim>\<open>set_string_variable<1>\<close>,
  a \<^verbatim>\<open>setter_field\<close>, a chain of the default with an external setter, and
  \<^verbatim>\<open>set_readonly\<close>.
\<close>

definition drive_fields :: "FieldList option" where
  "drive_fields =
     Option.bind (field Record_fields 0 T_uint8 0 0 3 UserConfig ''mode'' None)
    (\<lambda>fl. Option.bind (field fl 1 T_uint8 1 0 0 UserConfig ''gear''
              (Some (fn_set_variable T_uint8 0 0)))
    (\<lambda>fl. Option.bind (field fl 2 T_uint8 2 0 0 UserConfig ''tag''
              (Some (fn_set_string_variable 1)))
    (\<lambda>fl. Option.bind (setter_field fl T_uint8 reject_setter 3 0 0 UserConfig ''trim'')
    (\<lambda>fl. Option.bind (field fl 4 T_uint8 4 0 0 UserConfig ''lock''
              (Some (fn_set_chain (fn_set_default 4 T_uint8 0 0)
                                  (fn_set_wrapper T_uint8 reject_setter 0 0))))
    (\<lambda>fl. field fl 5 T_uint8 5 0 0 Perm_Info ''flags'' (Some fn_set_readonly))))))"

definition drive_info :: Record_Info where
  "drive_info =
     (case drive_fields of
        Some fl \<Rightarrow> Record_make_info UserConfig fl
      | None \<Rightarrow> Record_make_info UserConfig Record_fields)"

definition drive_obj :: Object where
  "drive_obj = \<lparr>obj_name = ''drive'', obj_info = Record_ptr drive_info, obj_data = Some 0\<rparr>"

text \<open>
  Two records over the bytes 2 and 3 of the storage. In \<open>window\<close> the data class is the
  whole block and each member is declared at its own offset in it (members at 2 and 3,
  field offsets 2 and 3). In \<open>band\<close> the data class is the pair of bytes that the record
  describes (members at 0 and 1, field offsets 2 and 3).
\<close>

definition window_fields :: "FieldList option" where
  "window_fields =
     Option.bind (field Record_fields 2 T_uint8 2 0 0 UserConfig ''lo'' None)
       (\<lambda>fl. field fl 3 T_uint8 3 0 0 UserConfig ''hi'' None)"

definition window_info :: Record_Info where
  "window_info =
     (case window_fields of
        Some fl \<Rightarrow> Record_make_info UserConfig fl
      | None \<Rightarrow> Record_make_info UserConfig Record_fields)"

definition window_obj :: Object where
  "window_obj = \<lparr>obj_name = ''window'', obj_info = Record_ptr window_info, obj_data = Some 0\<rparr>"

definition band_fields :: "FieldList option" where
  "band_fields =
     Option.bind (field Record_fields 0 T_uint8 2 0 0 UserConfig ''lo'' None)
       (\<lambda>fl. field fl 1 T_uint8 3 0 0 UserConfig ''hi'' None)"

definition band_info :: Record_Info where
  "band_info =
     (case band_fields of
        Some fl \<Rightarrow> Record_make_info UserConfig fl
      | None \<Rightarrow> Record_make_info UserConfig Record_fields)"

definition band_obj :: Object where
  "band_obj = \<lparr>obj_name = ''band'', obj_info = Record_ptr band_info, obj_data = Some 0\<rparr>"

text \<open>
  The strategies that validate and then store by themselves: neither a chain, nor a call
  into external code, nor a dispatch.
\<close>

fun direct :: "SetFunction \<Rightarrow> bool" where
  "direct (fn_set_default member T vmin vmax) = True"
| "direct (fn_set_variable T vmin vmax) = True"
| "direct (fn_set_string_variable Length) = True"
| "direct fn_set_readonly = True"
| "direct _ = False"

text \<open>The set functions that do not enter \<^verbatim>\<open>Record::detail::set_data\<close>.\<close>

fun no_dispatch :: "SetFunction \<Rightarrow> bool" where
  "no_dispatch (fn_set_chain f1 f2) = (no_dispatch f1 \<and> no_dispatch f2)"
| "no_dispatch fn_Record_set_data = False"
| "no_dispatch _ = True"

text \<open>Three of these objects, registered under addresses given out of order.\<close>

definition plant_items :: "Item list" where
  "plant_items =
     [\<lparr>address = 0x2001, pdo_mapping = 0, object = gains_obj\<rparr>,
      \<lparr>address = 0x1000, pdo_mapping = 0, object = speed_obj\<rparr>,
      \<lparr>address = 0x2000, pdo_mapping = 0, object = status_obj\<rparr>]"

section \<open>Notions used in the proofs about sorting\<close>

text \<open>
  The child that \<^verbatim>\<open>__sift_down\<close> selects, before its loop and at the end of every round:
  the right one when it exists and compares greater than the left one.
\<close>

definition larger_child :: "('a \<Rightarrow> 'a \<Rightarrow> bool) \<Rightarrow> nat \<Rightarrow> 'a list \<Rightarrow> nat \<Rightarrow> nat" where
  "larger_child cmp len xs i =
     (if 2 * i + 1 + 1 < len \<and> cmp (xs ! (2 * i + 1)) (xs ! (2 * i + 1 + 1))
      then 2 * i + 1 + 1 else 2 * i + 1)"

text \<open>
  Heap order on the first \<open>len\<close> elements, for every parent at index \<open>s\<close> or above; the
  parent of \<open>j\<close> is \<open>(j - 1) div 2\<close>.
\<close>

definition heap_from :: "('a \<Rightarrow> 'k::linorder) \<Rightarrow> 'a list \<Rightarrow> nat \<Rightarrow> nat \<Rightarrow> bool" where
  "heap_from f xs len s =
     (\<forall>j. 0 < j \<and> j < len \<and> s \<le> (j - 1) div 2 \<longrightarrow> f (xs ! j) \<le> f (xs ! ((j - 1) div 2)))"

section \<open>Properties\<close>

subsection \<open>Result codes and validation\<close>

lemma check_cases:
  "check T vmin vmax data bsize =
     (if bsize > sizeof T then code ParamTooLong
      else if bsize < sizeof T then code ParamTooShort
      else if data = None then code DataTypeError
      else if vmin \<noteq> vmax \<and> decode T (the data) < vmin then code ValueTooLow
      else if vmin \<noteq> vmax \<and> decode T (the data) > vmax then code ValueTooHigh
      else code OK)"
  by (auto simp: check_def Let_def split: option.splits)

lemma check_OK_iff:
  "(check T vmin vmax data bsize = code OK) =
     (bsize = sizeof T \<and> (\<exists>bs. data = Some bs \<and>
        (vmin = vmax \<or> (vmin \<le> decode T bs \<and> decode T bs \<le> vmax))))"
  by (auto simp: check_cases)

text \<open>The record \<open>status\<close>, as its constructors build it.\<close>

lemma status_info_eq:
  "status_info =
     \<lparr>otype = Record, type = DT_Record, nelem = 2, perm = UserConfig, data_offset = 0,
      data_size = 3, set_function = fn_Record_set_data,
      fields_r =
        [\<lparr>otype = Variable, type = DT_I16, nelem = 1, perm = UserConfig, data_offset = 0,
          data_size = 2, set_function = fn_set_default 0 T_int16 (- 40) 125,
          range_info = (- 40, 125), name = ''temp''\<rparr>,
         \<lparr>otype = Variable, type = DT_U8, nelem = 1, perm = Perm_Info, data_offset = 2,
          data_size = 1, set_function = fn_set_readonly, range_info = (0, 0),
          name = ''flags''\<rparr>]\<rparr>"
  by (simp add: status_info_def status_fields_def field_def Record_fields_def
      Record_make_info_def FieldInfo_ctor_def)

subsection \<open>Sub-object queries on arrays\<close>

text \<open>
  C1. On an array, \<^verbatim>\<open>Dictionary::query\<close> adds 1 to the index that \<^verbatim>\<open>find\<close> returned
  and only then compares with \<^verbatim>\<open>nelem\<close>. For the array \<open>gains\<close> with the element names
  \<open>p\<close> and \<open>d\<close>: the query \<open>gains.d\<close>, whose name matches the last element (index 1),
  returns FieldNotFound with \<open>subIdx = 2\<close>; the query \<open>gains.x\<close>, whose name matches no
  element, returns OK with \<open>subIdx = 3\<close>. Only a match before the last element is
  reported as the claim says (\<open>gains.p\<close>: OK, \<open>subIdx = 1\<close>).
\<close>

theorem C1_array_query_compares_after_increment:
  "map_option (\<lambda>(r, q). (r, subIdx q))
       (Dictionary_query gains_dict (fst (Query_ctor ''gains.d'')))
     = Some (code FieldNotFound, 2) \<and>
   map_option (\<lambda>(r, q). (r, subIdx q))
       (Dictionary_query gains_dict (fst (Query_ctor ''gains.x'')))
     = Some (code OK, 3) \<and>
   map_option (\<lambda>(r, q). (r, subIdx q))
       (Dictionary_query gains_dict (fst (Query_ctor ''gains.p'')))
     = Some (code OK, 1)"
  by code_simp

subsection \<open>Field reflection on records\<close>

text \<open>
  C2. \<^verbatim>\<open>Object::info(k)\<close> on a record takes name and size from field \<open>k - 1\<close> but leaves
  the offset at the record's own \<^verbatim>\<open>data_offset\<close>. In \<open>status\<close> the field \<open>flags\<close> is
  declared at offset 2 with size 1; \<open>info(2)\<close> reports the name \<open>flags\<close>, size 1 and
  offset 0. Sub-indices 0 and 3 give the invalid result (null name).
\<close>

theorem C2_record_info_keeps_record_offset:
  "map (\<lambda>f. (name f, data_offset f, data_size f)) (fields_r status_info)
     = [(''temp'', 0, 2), (''flags'', 2, 1)] \<and>
   map_option (\<lambda>fi. (finfo_name fi, finfo_offset fi, finfo_size fi)) (Object_info status_obj 2)
     = Some (Some ''flags'', 0, 1) \<and>
   map_option valid (Object_info status_obj 0) = Some False \<and>
   map_option valid (Object_info status_obj 3) = Some False"
  by code_simp

subsection \<open>Reading a variable\<close>

text \<open>
  C3. \<^verbatim>\<open>Object::get(void*, size_t)\<close> copies only when \<^verbatim>\<open>data_size < size\<close>. For the
  16-bit variable \<open>speed\<close> holding the bytes \<open>0x34 0x12\<close>, a read with capacity 2 (equal
  to \<^verbatim>\<open>data_size\<close>) returns 2 and stores nothing in the buffer; with capacity 3 it
  returns 2 and stores both bytes. Sub-index 1 fails with FieldNotFound.
\<close>

theorem C3_variable_get_needs_spare_capacity:
  "Object_get speed_obj 0 2 [0x34, 0x12] = Some (2, []) \<and>
   Object_get speed_obj 0 3 [0x34, 0x12] = Some (2, [0x34, 0x12]) \<and>
   Object_get speed_obj 1 3 [0x34, 0x12] = Some (code FieldNotFound, [])"
  by code_simp

subsection \<open>The scalar strategy\<close>

text \<open>
  C5, as the claim states it, fails on a null data pointer: with the size equal to
  \<^verbatim>\<open>sizeof(T)\<close> and an empty range (\<open>min = max\<close>) the call does not succeed but
  returns DataTypeError.
\<close>

theorem C5_null_data_counterexample:
  "set_function (base (obj_info speed_obj)) = fn_set_variable T_uint16 0 0 \<and>
   sizeof T_uint16 = 2 \<and>
   Object_set speed_obj 0 None 2 [0, 0] = Some (code DataTypeError, [0, 0])"
  by (simp add: speed_obj_def Variable_make_info_def Variable_Info_ctor_def Info.truncate_def
      Object_set_def set_variable_def check_def)

text \<open>
  C5, amended. For \<^verbatim>\<open>set_variable<T, min, max>\<close> and for
  \<^verbatim>\<open>set_default<DataClass, T, member, min, max>\<close>, on an object whose bound storage
  holds \<^verbatim>\<open>sizeof(T)\<close> bytes at the destination (the object's data location, plus the
  member's offset for \<^verbatim>\<open>set_default\<close>): a size above \<^verbatim>\<open>sizeof(T)\<close> gives ParamTooLong,
  a size below it ParamTooShort; with the exact size, a null data pointer gives
  DataTypeError; with non-null data and \<open>min \<noteq> max\<close>, a decoded value below \<open>min\<close>
  gives ValueTooLow and one not below \<open>min\<close> but above \<open>max\<close> gives ValueTooHigh, and
  none of these touches the storage; with \<open>min = max\<close> no range check is applied. The
  call succeeds iff the size is exact, the data pointer is non-null and the value is in
  range (or \<open>min = max\<close>), and on success the storage holds the \<^verbatim>\<open>sizeof(T)\<close> given bytes
  at the destination and is otherwise unchanged.
\<close>

theorem C5_scalar_set:
  assumes "Object_data obj = Some p"
    and "(f = fn_set_variable T vmin vmax \<and> dest = p) \<or>
         (f = fn_set_default member T vmin vmax \<and> dest = p + member)"
    and "dest + sizeof T \<le> length h"
  shows
   "(bsize > sizeof T \<longrightarrow>
       call f obj idx data bsize h = Some (code ParamTooLong, h)) \<and>
    (bsize < sizeof T \<longrightarrow>
       call f obj idx data bsize h = Some (code ParamTooShort, h)) \<and>
    (bsize = sizeof T \<and> data = None \<longrightarrow>
       call f obj idx data bsize h = Some (code DataTypeError, h)) \<and>
    (\<forall>bs. bsize = sizeof T \<and> data = Some bs \<and> vmin \<noteq> vmax \<and> decode T bs < vmin \<longrightarrow>
       call f obj idx data bsize h = Some (code ValueTooLow, h)) \<and>
    (\<forall>bs. bsize = sizeof T \<and> data = Some bs \<and> vmin \<noteq> vmax \<and> vmin \<le> decode T bs
          \<and> vmax < decode T bs \<longrightarrow>
       call f obj idx data bsize h = Some (code ValueTooHigh, h)) \<and>
    (\<forall>bs. bsize = sizeof T \<and> data = Some bs \<and> length bs = bsize
          \<and> (vmin = vmax \<or> (vmin \<le> decode T bs \<and> decode T bs \<le> vmax)) \<longrightarrow>
       call f obj idx data bsize h
         = Some (code OK, take dest h @ bs @ drop (dest + sizeof T) h)) \<and>
    (\<forall>r h'. call f obj idx data bsize h = Some (r, h') \<longrightarrow>
       (r = code OK) =
         (bsize = sizeof T \<and> (\<exists>bs. data = Some bs \<and>
            (vmin = vmax \<or> (vmin \<le> decode T bs \<and> decode T bs \<le> vmax)))))"
proof -
  have eq: "call f obj idx data bsize h =
      (if check T vmin vmax data bsize \<noteq> code OK
       then Some (check T vmin vmax data bsize, h)
       else store_scalar T (Some dest) data h)"
    using assms(1,2) by (auto simp: set_variable_def set_default_def Let_def)
  have fail: "check T vmin vmax data bsize \<noteq> code OK \<Longrightarrow>
      call f obj idx data bsize h = Some (check T vmin vmax data bsize, h)"
    by (simp add: eq)
  have ok: "call f obj idx (Some bs) bsize h
         = Some (code OK, take dest h @ bs @ drop (dest + sizeof T) h)"
    if "check T vmin vmax (Some bs) bsize = code OK" "length bs = sizeof T" "data = Some bs" for bs
    using that assms(3) eq by (simp add: store_scalar_def write_bytes_def)
  have ok': "\<exists>h'. call f obj idx (Some bs) bsize h = Some (code OK, h')"
    if "check T vmin vmax (Some bs) bsize = code OK" "data = Some bs" for bs
    using that assms(3) eq by (simp add: store_scalar_def write_bytes_def)
  show ?thesis
  proof (intro conjI allI impI)
    show "call f obj idx data bsize h = Some (code ParamTooLong, h)"
      if "sizeof T < bsize"
      using that fail by (simp add: check_cases)
    show "call f obj idx data bsize h = Some (code ParamTooShort, h)"
      if "bsize < sizeof T"
      using that fail by (simp add: check_cases)
    show "call f obj idx data bsize h = Some (code DataTypeError, h)"
      if "bsize = sizeof T \<and> data = None"
      using that fail by (simp add: check_cases)
    show "call f obj idx data bsize h = Some (code ValueTooLow, h)"
      if "bsize = sizeof T \<and> data = Some bs \<and> vmin \<noteq> vmax \<and> decode T bs < vmin" for bs
      using that fail by (simp add: check_cases)
    show "call f obj idx data bsize h = Some (code ValueTooHigh, h)"
      if "bsize = sizeof T \<and> data = Some bs \<and> vmin \<noteq> vmax \<and> vmin \<le> decode T bs
            \<and> vmax < decode T bs" for bs
      using that fail by (simp add: check_cases)
    show "call f obj idx data bsize h
            = Some (code OK, take dest h @ bs @ drop (dest + sizeof T) h)"
      if "bsize = sizeof T \<and> data = Some bs \<and> length bs = bsize
            \<and> (vmin = vmax \<or> (vmin \<le> decode T bs \<and> decode T bs \<le> vmax))" for bs
    proof -
      from that have "check T vmin vmax (Some bs) bsize = code OK"
        unfolding check_OK_iff by blast
      with that ok [of bs] show ?thesis by simp
    qed
    show "(r = code OK) =
         (bsize = sizeof T \<and> (\<exists>bs. data = Some bs \<and>
            (vmin = vmax \<or> (vmin \<le> decode T bs \<and> decode T bs \<le> vmax))))"
      if "call f obj idx data bsize h = Some (r, h')" for r h'
    proof (cases "check T vmin vmax data bsize = code OK")
      case True
      then obtain bs where "data = Some bs" unfolding check_OK_iff by blast
      with True ok' [of bs] that have "r = code OK" by auto
      with True show ?thesis unfolding check_OK_iff by blast
    next
      case False
      with fail that have "r = check T vmin vmax data bsize" by simp
      with False have "r \<noteq> code OK" by simp
      moreover from False have "\<not> (bsize = sizeof T \<and> (\<exists>bs. data = Some bs \<and>
            (vmin = vmax \<or> (vmin \<le> decode T bs \<and> decode T bs \<le> vmax))))"
        unfolding check_OK_iff .
      ultimately show ?thesis by blast
    qed
  qed
qed

theorem C5_scalar_set_witness:
  "Object_set level_obj 0 (Some [85, 0]) 2 [0, 0] = Some (code OK, [85, 0]) \<and>
   Object_set level_obj 0 (Some [200, 0]) 2 [0, 0] = Some (code ValueTooHigh, [0, 0]) \<and>
   Object_set level_obj 0 (Some [0x9C, 0xFF]) 2 [0, 0] = Some (code ValueTooLow, [0, 0]) \<and>
   Object_set level_obj 0 (Some [1, 2, 3]) 3 [0, 0] = Some (code ParamTooLong, [0, 0]) \<and>
   Object_set level_obj 0 (Some [1]) 1 [0, 0] = Some (code ParamTooShort, [0, 0]) \<and>
   call (fn_set_default 0 T_int16 (- 40) 125) status_obj 1 (Some [85, 0]) 2 [0, 0, 0]
     = Some (code OK, [85, 0, 0])"
proof -
  have d: "Object_data level_obj = Some 0"
    by (simp add: Object_data_def level_obj_def Variable_make_info_def Variable_Info_ctor_def
        Info.truncate_def)
  have f: "set_function (base (obj_info level_obj)) = fn_set_variable T_int16 (- 40) 125"
    by (simp add: level_obj_def Variable_make_info_def Variable_Info_ctor_def Info.truncate_def)
  have s: "(fn_set_variable T_int16 (- 40) 125 = fn_set_variable T_int16 (- 40) 125 \<and> (0::nat) = 0) \<or>
           (fn_set_variable T_int16 (- 40) 125 = fn_set_default 0 T_int16 (- 40) 125 \<and> (0::nat) = 0 + 0)"
    by simp
  have l: "0 + sizeof T_int16 \<le> length [0 :: uint8_t, 0]" by simp
  have d': "Object_data status_obj = Some 0"
    by (simp add: Object_data_def status_obj_def status_info_eq Info.truncate_def)
  have s': "(fn_set_default 0 T_int16 (- 40) 125 = fn_set_variable T_int16 (- 40) 125 \<and> (0::nat) = 0) \<or>
           (fn_set_default 0 T_int16 (- 40) 125 = fn_set_default 0 T_int16 (- 40) 125 \<and> (0::nat) = 0 + 0)"
    by simp
  have l': "0 + sizeof T_int16 \<le> length [0 :: uint8_t, 0, 0]" by simp
  have v1: "decode T_int16 [85, 0] = 85" by (simp add: decode_def)
  have v2: "decode T_int16 [200, 0] = 200" by (simp add: decode_def)
  have v3: "decode T_int16 [0x9C, 0xFF] = - 100" by (simp add: decode_def)
  note t1 = C5_scalar_set [OF d s l, of 2 0 "Some [85, 0]"]
  note t2 = C5_scalar_set [OF d s l, of 2 0 "Some [200, 0]"]
  note t3 = C5_scalar_set [OF d s l, of 2 0 "Some [0x9C, 0xFF]"]
  note t4 = C5_scalar_set [OF d s l, of 3 0 "Some [1, 2, 3]"]
  note t5 = C5_scalar_set [OF d s l, of 1 0 "Some [1]"]
  note t6 = C5_scalar_set [OF d' s' l', of 2 1 "Some [85, 0]"]
  have c1: "Object_set level_obj 0 (Some [85, 0]) 2 [0, 0] = Some (code OK, [85, 0])"
    using t1 [THEN conjunct2, THEN conjunct2, THEN conjunct2, THEN conjunct2, THEN conjunct2,
              THEN conjunct1, rule_format, of "[85, 0]"]
    by (simp add: v1 Object_set_def f)
  have c2: "Object_set level_obj 0 (Some [200, 0]) 2 [0, 0] = Some (code ValueTooHigh, [0, 0])"
    using t2 [THEN conjunct2, THEN conjunct2, THEN conjunct2, THEN conjunct2, THEN conjunct1,
              rule_format, of "[200, 0]"]
    by (simp add: v2 Object_set_def f)
  have c3: "Object_set level_obj 0 (Some [0x9C, 0xFF]) 2 [0, 0] = Some (code ValueTooLow, [0, 0])"
    using t3 [THEN conjunct2, THEN conjunct2, THEN conjunct2, THEN conjunct1,
              rule_format, of "[0x9C, 0xFF]"]
    by (simp add: v3 Object_set_def f)
  have c4: "Object_set level_obj 0 (Some [1, 2, 3]) 3 [0, 0] = Some (code ParamTooLong, [0, 0])"
    using t4 [THEN conjunct1] by (simp add: Object_set_def f)
  have c5: "Object_set level_obj 0 (Some [1]) 1 [0, 0] = Some (code ParamTooShort, [0, 0])"
    using t5 [THEN conjunct2, THEN conjunct1] by (simp add: Object_set_def f)
  have c6: "call (fn_set_default 0 T_int16 (- 40) 125) status_obj 1 (Some [85, 0]) 2 [0, 0, 0]
     = Some (code OK, [85, 0, 0])"
    using t6 [THEN conjunct2, THEN conjunct2, THEN conjunct2, THEN conjunct2, THEN conjunct2,
              THEN conjunct1, rule_format, of "[85, 0]"]
    by (simp add: v1)
  from c1 c2 c3 c4 c5 c6 show ?thesis by (intro conjI)
qed

subsection \<open>Parsing a query\<close>

lemma find_if_not_takeWhile: "find_if_not pred xs = length (takeWhile pred xs)"
  by (induction xs) simp_all

lemma find_if_takeWhile: "find_if pred xs = length (takeWhile (\<lambda>x. \<not> pred x) xs)"
  by (induction xs) simp_all

lemma trim_prefix_dropWhile: "trim_prefix str pred = dropWhile pred str"
  by (simp add: trim_prefix_def remove_prefix_def find_if_not_takeWhile length_takeWhile_le
      dropWhile_eq_drop)

lemma trim_suffix_dropWhile: "trim_suffix str pred = rev (dropWhile pred (rev str))"
proof -
  let ?n = "length (takeWhile pred (rev str))"
  have le: "?n \<le> length str"
    using length_takeWhile_le [of pred "rev str"] by simp
  have "rev (dropWhile pred (rev str)) = rev (drop ?n (rev str))"
    by (simp add: dropWhile_eq_drop)
  also have "\<dots> = take (length str - ?n) str"
    by (simp add: rev_drop)
  finally show ?thesis
    using le by (simp add: trim_suffix_def remove_suffix_def find_if_not_takeWhile)
qed

lemma next_token_eq:
  "next_token str pred =
     (takeWhile (\<lambda>x. \<not> pred x) (dropWhile pred str),
      drop (Suc (length (takeWhile (\<lambda>x. \<not> pred x) (dropWhile pred str)))) (dropWhile pred str))"
proof -
  let ?s = "dropWhile pred str"
  let ?n = "length (takeWhile (\<lambda>x. \<not> pred x) ?s)"
  have le: "?n \<le> length ?s" by (rule length_takeWhile_le)
  have tk: "take ?n ?s = takeWhile (\<lambda>x. \<not> pred x) ?s"
    by (rule takeWhile_eq_take [symmetric])
  have "next_token str pred =
      (take ?n ?s, if ?n < length ?s then remove_prefix ?s (?n + 1) else remove_prefix ?s ?n)"
    by (simp only: next_token_def Let_def trim_prefix_dropWhile find_if_takeWhile)
  also have "(if ?n < length ?s then remove_prefix ?s (?n + 1) else remove_prefix ?s ?n)
      = drop (Suc ?n) ?s"
  proof (cases "?n < length ?s")
    case True
    then show ?thesis by (simp only: remove_prefix_def) simp
  next
    case False
    with le have "?n = length ?s" by simp
    then show ?thesis by (simp only: remove_prefix_def) simp
  qed
  finally show ?thesis by (simp only: tk)
qed

lemma next_token_sep:
  assumes "\<forall>c\<in>set a. \<not> pred c" and "a \<noteq> []" and "pred s"
  shows "next_token (a @ s # b) pred = (a, b)"
proof -
  from assms have "\<not> pred (hd a)" by (cases a) auto
  with assms(2) have d: "dropWhile pred (a @ s # b) = a @ s # b"
    by (cases a) auto
  from assms have t: "takeWhile (\<lambda>x. \<not> pred x) (a @ s # b) = a"
    by (simp add: takeWhile_tail)
  show ?thesis by (simp add: next_token_eq d t)
qed

lemma next_token_nosep:
  assumes "\<forall>c\<in>set a. \<not> pred c"
  shows "next_token a pred = (a, [])"
proof -
  from assms have d: "dropWhile pred a = a"
    by (cases a) auto
  from assms have t: "takeWhile (\<lambda>x. \<not> pred x) a = a"
    by simp
  show ?thesis by (simp add: next_token_eq d t)
qed

text \<open>
  C4, as the claim states it, fails on whitespace next to the separator: the constructor
  trims only the front of \<^verbatim>\<open>object_name\<close> and only the back of \<^verbatim>\<open>subobject_name\<close>, so
  \<open>motor . speed\<close> keeps the blank after \<open>motor\<close> and the blank before \<open>speed\<close>.
\<close>

theorem C4_inner_whitespace_counterexample:
  "object_name (fst (Query_ctor ''motor . speed'')) = ''motor '' \<and>
   subobject_name (fst (Query_ctor ''motor . speed'')) = '' speed''"
  by code_simp

text \<open>
  C4, amended. Constructing a query from \<open>a s b\<close>, where \<open>s\<close> is one of the separators
  \<open>.\<close>, \<open>:\<close>, \<open>/\<close> and the non-empty \<open>a\<close> and \<open>b\<close> contain none, gives \<open>a\<close> without its
  leading whitespace as \<^verbatim>\<open>object_name\<close> and \<open>b\<close> without its trailing whitespace as
  \<^verbatim>\<open>subobject_name\<close>; from a text \<open>a\<close> without separator it gives \<open>a\<close> without its leading
  whitespace and an empty \<^verbatim>\<open>subobject_name\<close>; \<^verbatim>\<open>subIdx\<close> starts at -1. In particular
  \<open>motor.speed\<close> yields \<open>motor\<close> and \<open>speed\<close>, and \<open>motor\<close> yields an empty
  \<^verbatim>\<open>subobject_name\<close> with \<^verbatim>\<open>subIdx\<close> -1.
\<close>

theorem C4_query_ctor:
  "((\<forall>c\<in>set a. \<not> issep c) \<and> a \<noteq> [] \<and> issep s \<and> (\<forall>c\<in>set b. \<not> issep c) \<longrightarrow>
      object_name (fst (Query_ctor (a @ s # b))) = dropWhile isspace a \<and>
      subobject_name (fst (Query_ctor (a @ s # b))) = rev (dropWhile isspace (rev b)) \<and>
      sint (subIdx (fst (Query_ctor (a @ s # b)))) = - 1) \<and>
   ((\<forall>c\<in>set a. \<not> issep c) \<longrightarrow>
      object_name (fst (Query_ctor a)) = dropWhile isspace a \<and>
      subobject_name (fst (Query_ctor a)) = [] \<and>
      sint (subIdx (fst (Query_ctor a))) = - 1) \<and>
   object_name (fst (Query_ctor ''motor.speed'')) = ''motor'' \<and>
   subobject_name (fst (Query_ctor ''motor.speed'')) = ''speed'' \<and>
   object_name (fst (Query_ctor ''motor'')) = ''motor'' \<and>
   subobject_name (fst (Query_ctor ''motor'')) = [] \<and>
   sint (subIdx (fst (Query_ctor ''motor''))) = - 1"
proof (intro conjI impI)
  assume a: "(\<forall>c\<in>set a. \<not> issep c) \<and> a \<noteq> [] \<and> issep s \<and> (\<forall>c\<in>set b. \<not> issep c)"
  then have q: "Query_ctor (a @ s # b) =
      (\<lparr>object_name = dropWhile isspace a, subobject_name = rev (dropWhile isspace (rev b)),
        item = None, info = None, subIdx = - 1\<rparr>, [])"
    by (simp add: Query_ctor_def next_token_sep next_token_nosep trim_prefix_dropWhile
        trim_suffix_dropWhile)
  show "object_name (fst (Query_ctor (a @ s # b))) = dropWhile isspace a"
    by (simp add: q)
  show "subobject_name (fst (Query_ctor (a @ s # b))) = rev (dropWhile isspace (rev b))"
    by (simp add: q)
  show "sint (subIdx (fst (Query_ctor (a @ s # b)))) = - 1"
    by (simp add: q)
next
  assume a: "\<forall>c\<in>set a. \<not> issep c"
  then have q: "Query_ctor a =
      (\<lparr>object_name = dropWhile isspace a, subobject_name = [],
        item = None, info = None, subIdx = - 1\<rparr>, [])"
    by (simp add: Query_ctor_def next_token_nosep trim_prefix_dropWhile trim_suffix_dropWhile)
  show "object_name (fst (Query_ctor a)) = dropWhile isspace a" by (simp add: q)
  show "subobject_name (fst (Query_ctor a)) = []" by (simp add: q)
  show "sint (subIdx (fst (Query_ctor a))) = - 1" by (simp add: q)
next
  show "object_name (fst (Query_ctor ''motor.speed'')) = ''motor''" by code_simp
  show "subobject_name (fst (Query_ctor ''motor.speed'')) = ''speed''" by code_simp
  show "object_name (fst (Query_ctor ''motor'')) = ''motor''" by code_simp
  show "subobject_name (fst (Query_ctor ''motor'')) = []" by code_simp
  show "sint (subIdx (fst (Query_ctor ''motor''))) = - 1" by code_simp
qed

theorem C4_query_ctor_witness:
  "object_name (fst (Query_ctor '' gain:kp '')) = ''gain'' \<and>
   subobject_name (fst (Query_ctor '' gain:kp '')) = ''kp'' \<and>
   sint (subIdx (fst (Query_ctor '' gain:kp ''))) = - 1 \<and>
   object_name (fst (Query_ctor '' gain'')) = ''gain'' \<and>
   subobject_name (fst (Query_ctor '' gain'')) = []"
  using C4_query_ctor [of "'' gain''" "CHR '':''" "''kp ''"]
  by (simp add: issep_def isspace_def)

subsection \<open>Reading an array\<close>

lemma unat_pred_lt: "0 < (k::uint8_t) \<Longrightarrow> k \<le> n \<Longrightarrow> unat k - 1 < unat n"
  by (metis One_nat_def Suc_pred less_Suc_eq_le not_less unat_gt_0 word_le_nat_alt word_neq_0_conv)

text \<open>
  C6, as the claim states it, fails in its second clause for an array that reaches past
  offset 65535 of its data class. \<^verbatim>\<open>Object::get\<close> passes the element's offset
  \<^verbatim>\<open>data_offset + elem_size * (subIdx - 1)\<close> to \<^verbatim>\<open>data(uint16_t offset)\<close>, which keeps
  its low 16 bits. The array \<open>far\<close> has two bytes at offset 65535; its second element
  lies at offset 65536 and holds 5, and \<^verbatim>\<open>get(2)\<close> returns the byte at offset 0, which
  is 9.
\<close>

theorem C6_offset_counterexample:
  "data_offset (base (obj_info far_obj)) = 65535 \<and>
   nelem (base (obj_info far_obj)) = 2 \<and>
   type_size (type (base (obj_info far_obj))) = 1 \<and>
   read_bytes (9 # replicate 65535 0 @ [5]) (65535 + 1 * (2 - 1)) 1 = Some [5] \<and>
   Object_get far_obj 2 64 (9 # replicate 65535 0 @ [5]) = Some (1, [9])"
  by (simp add: far_obj_def Array_make_info_def Object_get_def Info.truncate_def read_bytes_def)

text \<open>
  C6, amended. For an array object of \<open>N\<close> elements with a bound data pointer \<open>p\<close>:
  \<^verbatim>\<open>get(0)\<close> yields exactly one byte, equal to \<open>N\<close>. For \<open>1 \<le> k \<le> N\<close> with the
  element's offset \<^verbatim>\<open>data_offset + type_size(type) * (k - 1)\<close> below 65536, \<^verbatim>\<open>get(k)\<close>
  yields what reading \<^verbatim>\<open>type_size(type)\<close> bytes at the \<open>k\<close>-th element yields: that
  size and the element's bytes in the storage, for every element that lies in the storage
  block. \<^verbatim>\<open>get(N + 1)\<close>, and \<^verbatim>\<open>get(k)\<close> for every other sub-index above \<open>N\<close>, fails
  with FieldNotFound.
\<close>

theorem C6_array_get:
  assumes "otype (base (obj_info obj)) = Array" and "obj_data obj = Some p"
    and "hdr = base (obj_info obj)" and "esz = type_size (type hdr)"
  shows
   "Object_get obj 0 bsize h = Some (1, [nelem hdr]) \<and>
    (\<forall>k. 0 < k \<and> k \<le> nelem hdr \<and> unat (data_offset hdr) + esz * (unat k - 1) < 65536 \<longrightarrow>
       Object_get obj k bsize h
         = map_option (Pair (of_nat esz))
             (read_bytes h (p + unat (data_offset hdr) + esz * (unat k - 1)) esz) \<and>
       (p + unat (data_offset hdr) + esz * unat k \<le> length h \<longrightarrow>
          Object_get obj k bsize h
            = Some (of_nat esz,
                    take esz (drop (p + unat (data_offset hdr) + esz * (unat k - 1)) h)))) \<and>
    (\<forall>k. unat k = unat (nelem hdr) + 1 \<longrightarrow>
       Object_get obj k bsize h = Some (code FieldNotFound, [])) \<and>
    (\<forall>k. nelem hdr < k \<longrightarrow> Object_get obj k bsize h = Some (code FieldNotFound, []))"
proof (intro conjI allI impI)
  show "Object_get obj 0 bsize h = Some (1, [nelem hdr])"
    using assms by (simp add: Object_get_def)
next
  fix k assume "nelem hdr < k"
  then have "\<not> k \<le> nelem hdr" by simp
  then show "Object_get obj k bsize h = Some (code FieldNotFound, [])"
    using assms by (simp add: Object_get_def)
next
  fix k :: uint8_t assume "unat k = unat (nelem hdr) + 1"
  then have "\<not> k \<le> nelem hdr" by (simp add: word_le_nat_alt)
  then show "Object_get obj k bsize h = Some (code FieldNotFound, [])"
    using assms by (simp add: Object_get_def)
next
  fix k :: uint8_t
  assume a: "0 < k \<and> k \<le> nelem hdr \<and> unat (data_offset hdr) + esz * (unat k - 1) < 65536"
  then have k: "k \<noteq> 0" by auto
  have "unat (of_nat n :: uint16_t) = n" if "n < 65536" for n
    using that by (simp add: unat_of_nat)
  from this [of "unat (data_offset hdr) + esz * (unat k - 1)"] a k
  show g: "Object_get obj k bsize h
         = map_option (Pair (of_nat esz))
             (read_bytes h (p + unat (data_offset hdr) + esz * (unat k - 1)) esz)"
    using assms
    by (simp add: Object_get_def Let_def add.assoc split: option.splits
        del: of_nat_add of_nat_mult)
  assume s: "p + unat (data_offset hdr) + esz * unat k \<le> length h"
  from k have "0 < unat k" by (simp add: unat_gt_0)
  then have "esz * (unat k - 1) + esz = esz * unat k"
    by (metis Suc_pred' mult_Suc_right add.commute One_nat_def)
  with s have "p + unat (data_offset hdr) + esz * (unat k - 1) + esz \<le> length h" by linarith
  then show "Object_get obj k bsize h
            = Some (of_nat esz,
                    take esz (drop (p + unat (data_offset hdr) + esz * (unat k - 1)) h))"
    unfolding g by (simp add: read_bytes_def)
qed

theorem C6_array_get_witness:
  "Object_get gains_obj 0 64 [10, 20] = Some (1, [2]) \<and>
   Object_get gains_obj 1 64 [10, 20] = Some (1, [10]) \<and>
   Object_get gains_obj 2 64 [10, 20] = Some (1, [20]) \<and>
   Object_get gains_obj 2 64 [10] = None \<and>
   Object_get gains_obj 3 64 [10, 20] = Some (code FieldNotFound, []) \<and>
   Object_get gains_obj 200 64 [10, 20] = Some (code FieldNotFound, [])"
proof -
  have hdr: "base (obj_info gains_obj) =
      \<lparr>otype = Array, type = DT_U8, nelem = 2, perm = UserConfig, data_offset = 0,
       data_size = 2, set_function = fn_set_variable T_uint8 0 0\<rparr>"
    by (simp add: gains_obj_def Array_make_info_def Info.truncate_def)
  have a: "otype (base (obj_info gains_obj)) = Array" by (simp add: hdr)
  have d: "obj_data gains_obj = Some 0" by (simp add: gains_obj_def)
  note t = C6_array_get [OF a d refl refl, of 64 "[10, 20]"]
  note u = C6_array_get [OF a d refl refl, of 64 "[10]"]
  from t [THEN conjunct1]
       t [THEN conjunct2, THEN conjunct1, rule_format, of 1, THEN conjunct2]
       t [THEN conjunct2, THEN conjunct1, rule_format, of 2, THEN conjunct2]
       u [THEN conjunct2, THEN conjunct1, rule_format, of 2, THEN conjunct1]
       t [THEN conjunct2, THEN conjunct2, THEN conjunct1, rule_format, of 3]
       t [THEN conjunct2, THEN conjunct2, THEN conjunct2, rule_format, of 200]
  show ?thesis by (simp add: hdr read_bytes_def)
qed

subsection \<open>The record strategy\<close>

lemma call_field_call:
  "no_dispatch f \<Longrightarrow> call_field f obj k data bsize h = call f obj k data bsize h"
  by (induction f arbitrary: h) (auto split: option.splits)

text \<open>The record \<open>drive\<close>, as its constructors build it.\<close>

lemma drive_info_eq:
  "drive_info =
     \<lparr>otype = Record, type = DT_Record, nelem = 6, perm = UserConfig, data_offset = 0,
      data_size = 6, set_function = fn_Record_set_data,
      fields_r =
        [FieldInfo_ctor T_uint8 UserConfig ''mode'' 0 (fn_set_default 0 T_uint8 0 3) 0 3,
         FieldInfo_ctor T_uint8 UserConfig ''gear'' 1 (fn_set_variable T_uint8 0 0) 0 0,
         FieldInfo_ctor T_uint8 UserConfig ''tag'' 2 (fn_set_string_variable 1) 0 0,
         FieldInfo_ctor T_uint8 UserConfig ''trim'' 3
           (fn_set_wrapper T_uint8 reject_setter 0 0) 0 0,
         FieldInfo_ctor T_uint8 UserConfig ''lock'' 4
           (fn_set_chain (fn_set_default 4 T_uint8 0 0)
                         (fn_set_wrapper T_uint8 reject_setter 0 0)) 0 0,
         FieldInfo_ctor T_uint8 Perm_Info ''flags'' 5 fn_set_readonly 0 0]\<rparr>"
  by (simp add: drive_info_def drive_fields_def field_def setter_field_def Record_fields_def
      Record_make_info_def)

text \<open>
  C10. For an object whose \<^verbatim>\<open>Info\<close> is a record bound to \<^verbatim>\<open>Record::detail::set_data\<close>:
  \<^verbatim>\<open>set(0)\<close> returns ReadOnly; \<^verbatim>\<open>set(k)\<close> with \<open>k > nelem\<close> returns FieldNotFound; and
  \<^verbatim>\<open>set(k)\<close> with \<open>1 \<le> k \<le> nelem\<close> runs the set function bound into field \<open>k - 1\<close>
  on the same object, sub-index, data and size, and returns its result with the storage
  as that function leaves it: \<^verbatim>\<open>set_default\<close>, \<^verbatim>\<open>set_variable\<close>, \<^verbatim>\<open>set_string_variable\<close>,
  \<^verbatim>\<open>set_wrapper\<close> or \<^verbatim>\<open>set_readonly\<close> with the template arguments of the binding, and
  in general, chains included, the function called as it would be through the pointer.
\<close>

theorem C10_record_set_data:
  assumes "obj_info obj = Record_ptr rinfo" and "otype rinfo = Record"
    and "set_function rinfo = fn_Record_set_data"
    and "length (fields_r rinfo) = unat (nelem rinfo)"
  shows
   "Object_set obj 0 data bsize h = Some (code ReadOnly, h) \<and>
    (\<forall>k. nelem rinfo < k \<longrightarrow> Object_set obj k data bsize h = Some (code FieldNotFound, h)) \<and>
    (\<forall>k f. 0 < k \<and> k \<le> nelem rinfo \<and> f = set_function (fields_r rinfo ! (unat k - 1)) \<longrightarrow>
       (\<forall>member T vmin vmax. f = fn_set_default member T vmin vmax \<longrightarrow>
          Object_set obj k data bsize h = set_default member T vmin vmax obj k data bsize h) \<and>
       (\<forall>T vmin vmax. f = fn_set_variable T vmin vmax \<longrightarrow>
          Object_set obj k data bsize h = set_variable T vmin vmax obj k data bsize h) \<and>
       (\<forall>Length. f = fn_set_string_variable Length \<longrightarrow>
          Object_set obj k data bsize h = set_string_variable Length obj k data bsize h) \<and>
       (\<forall>T setf vmin vmax. f = fn_set_wrapper T setf vmin vmax \<longrightarrow>
          Object_set obj k data bsize h = set_wrapper T setf vmin vmax obj k data bsize h) \<and>
       (f = fn_set_readonly \<longrightarrow>
          Object_set obj k data bsize h = set_readonly obj k data bsize h) \<and>
       (no_dispatch f \<longrightarrow> Object_set obj k data bsize h = call f obj k data bsize h))"
proof (intro conjI allI impI)
  show "Object_set obj 0 data bsize h = Some (code ReadOnly, h)"
    using assms by (simp add: Object_set_def Record_set_data_def Info.truncate_def)
next
  fix k assume "nelem rinfo < k"
  then show "Object_set obj k data bsize h = Some (code FieldNotFound, h)"
    using assms by (simp add: Object_set_def Record_set_data_def Info.truncate_def)
next
  fix k f
  assume a: "0 < k \<and> k \<le> nelem rinfo \<and> f = set_function (fields_r rinfo ! (unat k - 1))"
  then have "unat k - 1 < unat (nelem rinfo)" "k \<noteq> 0" "\<not> nelem rinfo < k"
    using unat_pred_lt by auto
  with a have d: "Object_set obj k data bsize h = call_field f obj k data bsize h"
    using assms by (simp add: Object_set_def Record_set_data_def Info.truncate_def)
  { fix member T vmin vmax assume "f = fn_set_default member T vmin vmax"
    with d show "Object_set obj k data bsize h
        = set_default member T vmin vmax obj k data bsize h"
      by simp }
  { fix T vmin vmax assume "f = fn_set_variable T vmin vmax"
    with d show "Object_set obj k data bsize h = set_variable T vmin vmax obj k data bsize h"
      by simp }
  { fix Length assume "f = fn_set_string_variable Length"
    with d show "Object_set obj k data bsize h = set_string_variable Length obj k data bsize h"
      by simp }
  { fix T setf vmin vmax assume "f = fn_set_wrapper T setf vmin vmax"
    with d show "Object_set obj k data bsize h
        = set_wrapper T setf vmin vmax obj k data bsize h"
      by simp }
  { assume "f = fn_set_readonly"
    with d show "Object_set obj k data bsize h = set_readonly obj k data bsize h"
      by simp }
  { assume "no_dispatch f"
    with d show "Object_set obj k data bsize h = call f obj k data bsize h"
      by (simp add: call_field_call) }
qed

theorem C10_record_set_data_witness:
  "Object_set drive_obj 0 (Some [1]) 1 [0, 0, 0, 0, 0, 0]
     = Some (code ReadOnly, [0, 0, 0, 0, 0, 0]) \<and>
   Object_set drive_obj 7 (Some [1]) 1 [0, 0, 0, 0, 0, 0]
     = Some (code FieldNotFound, [0, 0, 0, 0, 0, 0]) \<and>
   Object_set drive_obj 1 (Some [2]) 1 [0, 0, 0, 0, 0, 0] = Some (code OK, [2, 0, 0, 0, 0, 0]) \<and>
   Object_set drive_obj 1 (Some [9]) 1 [0, 0, 0, 0, 0, 0]
     = Some (code ValueTooHigh, [0, 0, 0, 0, 0, 0]) \<and>
   Object_set drive_obj 2 (Some [5]) 1 [0, 0, 0, 0, 0, 0] = Some (code OK, [5, 0, 0, 0, 0, 0]) \<and>
   Object_set drive_obj 3 (Some [65]) 1 [0, 0, 0, 0, 0, 0]
     = Some (code ParamTooLong, [0, 0, 0, 0, 0, 0]) \<and>
   Object_set drive_obj 4 (Some [1]) 1 [0, 0, 0, 0, 0, 0]
     = Some (code UnableToSet, [0, 0, 0, 0, 0, 0]) \<and>
   Object_set drive_obj 5 (Some [8]) 1 [0, 0, 0, 0, 0, 0]
     = Some (code UnableToSet, [0, 0, 0, 0, 8, 0]) \<and>
   Object_set drive_obj 6 (Some [1]) 1 [0, 0, 0, 0, 0, 0]
     = Some (code ReadOnly, [0, 0, 0, 0, 0, 0])"
proof -
  let ?h = "[0, 0, 0, 0, 0, 0] :: heap"
  have i: "obj_info drive_obj = Record_ptr drive_info" by (simp add: drive_obj_def)
  have o: "otype drive_info = Record" by (simp add: drive_info_eq)
  have f: "set_function drive_info = fn_Record_set_data" by (simp add: drive_info_eq)
  have l: "length (fields_r drive_info) = unat (nelem drive_info)"
    by (simp add: drive_info_eq)
  have d: "Object_data drive_obj = Some 0"
    by (simp add: Object_data_def drive_obj_def drive_info_eq Info.truncate_def)
  have n: "nelem drive_info = 6" by (simp add: drive_info_eq)
  note t = C10_record_set_data [OF i o f l]
  have "Object_set drive_obj 0 (Some [1]) 1 ?h = Some (code ReadOnly, ?h)"
    using t [of "Some [1]" 1 ?h, THEN conjunct1] .
  moreover have "Object_set drive_obj 7 (Some [1]) 1 ?h = Some (code FieldNotFound, ?h)"
    using t [of "Some [1]" 1 ?h, THEN conjunct2, THEN conjunct1, rule_format, of 7]
    by (simp add: n)
  moreover have "Object_set drive_obj 1 (Some [2]) 1 ?h = Some (code OK, [2, 0, 0, 0, 0, 0])"
    using t [of "Some [2]" 1 ?h, THEN conjunct2, THEN conjunct2, rule_format,
             where k = 1 and f = "fn_set_default 0 T_uint8 0 3",
             THEN conjunct1, rule_format, of 0 T_uint8 0 3] d
    by (simp add: drive_info_eq FieldInfo_ctor_def set_default_def check_def decode_def
        store_scalar_def write_bytes_def)
  moreover have "Object_set drive_obj 1 (Some [9]) 1 ?h = Some (code ValueTooHigh, ?h)"
    using t [of "Some [9]" 1 ?h, THEN conjunct2, THEN conjunct2, rule_format,
             where k = 1 and f = "fn_set_default 0 T_uint8 0 3",
             THEN conjunct1, rule_format, of 0 T_uint8 0 3] d
    by (simp add: drive_info_eq FieldInfo_ctor_def set_default_def check_def decode_def)
  moreover have "Object_set drive_obj 2 (Some [5]) 1 ?h = Some (code OK, [5, 0, 0, 0, 0, 0])"
    using t [of "Some [5]" 1 ?h, THEN conjunct2, THEN conjunct2, rule_format,
             where k = 2 and f = "fn_set_variable T_uint8 0 0",
             THEN conjunct2, THEN conjunct1, rule_format, of T_uint8 0 0] d
    by (simp add: drive_info_eq FieldInfo_ctor_def set_variable_def check_def
        store_scalar_def write_bytes_def)
  moreover have "Object_set drive_obj 3 (Some [65]) 1 ?h = Some (code ParamTooLong, ?h)"
    using t [of "Some [65]" 1 ?h, THEN conjunct2, THEN conjunct2, rule_format,
             where k = 3 and f = "fn_set_string_variable 1",
             THEN conjunct2, THEN conjunct2, THEN conjunct1, rule_format, of 1]
    by (simp add: drive_info_eq FieldInfo_ctor_def set_string_variable_def)
  moreover have "Object_set drive_obj 4 (Some [1]) 1 ?h = Some (code UnableToSet, ?h)"
    using t [of "Some [1]" 1 ?h, THEN conjunct2, THEN conjunct2, rule_format,
             where k = 4 and f = "fn_set_wrapper T_uint8 reject_setter 0 0",
             THEN conjunct2, THEN conjunct2, THEN conjunct2, THEN conjunct1, rule_format,
             of T_uint8 reject_setter 0 0]
    by (simp add: drive_info_eq FieldInfo_ctor_def set_wrapper_def check_def reject_setter_def)
  moreover have "Object_set drive_obj 5 (Some [8]) 1 ?h
      = Some (code UnableToSet, [0, 0, 0, 0, 8, 0])"
    using t [of "Some [8]" 1 ?h, THEN conjunct2, THEN conjunct2, rule_format,
             where k = 5 and f = "fn_set_chain (fn_set_default 4 T_uint8 0 0)
                                    (fn_set_wrapper T_uint8 reject_setter 0 0)",
             THEN conjunct2, THEN conjunct2, THEN conjunct2, THEN conjunct2, THEN conjunct2] d
    by (simp add: drive_info_eq FieldInfo_ctor_def set_default_def set_wrapper_def check_def
        store_scalar_def write_bytes_def reject_setter_def)
  moreover have "Object_set drive_obj 6 (Some [1]) 1 ?h = Some (code ReadOnly, ?h)"
    using t [of "Some [1]" 1 ?h, THEN conjunct2, THEN conjunct2, rule_format,
             where k = 6 and f = fn_set_readonly,
             THEN conjunct2, THEN conjunct2, THEN conjunct2, THEN conjunct2, THEN conjunct1]
    by (simp add: drive_info_eq FieldInfo_ctor_def set_readonly_def)
  ultimately show ?thesis by simp
qed

subsection \<open>Failed writes\<close>

lemma set_scalar_error_keeps:
  "set_variable T vmin vmax obj idx data bsize h = Some (r, h') \<Longrightarrow> r \<noteq> code OK \<Longrightarrow> h' = h"
  "set_default member T vmin vmax obj idx data bsize h = Some (r, h') \<Longrightarrow> r \<noteq> code OK \<Longrightarrow> h' = h"
  by (auto simp: set_variable_def set_default_def store_scalar_def Let_def
      split: if_splits option.splits prod.splits)

lemma set_string_error_keeps:
  "set_string_variable Length obj idx data bsize h = Some (r, h') \<Longrightarrow> r \<noteq> code OK \<Longrightarrow> h' = h"
  by (auto simp: set_string_variable_def split: if_splits option.splits prod.splits bool.splits)

lemma call_field_direct_keeps:
  "direct f \<Longrightarrow> call_field f obj idx data bsize h = Some (r, h') \<Longrightarrow> r \<noteq> code OK \<Longrightarrow> h' = h"
  by (cases f) (auto simp: set_readonly_def dest: set_scalar_error_keeps set_string_error_keeps)

lemma call_direct_keeps:
  "direct f \<Longrightarrow> call f obj idx data bsize h = Some (r, h') \<Longrightarrow> r \<noteq> code OK \<Longrightarrow> h' = h"
  by (cases f) (auto simp: set_readonly_def dest: set_scalar_error_keeps set_string_error_keeps)

lemma Record_set_data_keeps:
  assumes "Record_set_data obj idx data bsize h = Some (r, h')" and "r \<noteq> code OK"
    and "\<And>rinfo fi. as_Record (obj_info obj) = Some rinfo \<Longrightarrow> fi \<in> set (fields_r rinfo)
           \<Longrightarrow> direct (set_function fi)"
  shows "h' = h"
  using assms
  by (auto simp: Record_set_data_def split: if_splits option.splits
      dest!: call_field_direct_keeps [rotated])

text \<open>
  C8, as the claim states it, fails for a chained strategy: \<^verbatim>\<open>set_chain<f1, f2>\<close> runs
  \<open>f2\<close> after \<open>f1\<close> has stored the value, and returns the error of \<open>f2\<close>. On \<open>valve\<close>
  the call returns UnableToSet and the storage byte has changed from 0 to 7.
\<close>

theorem C8_chain_counterexample:
  "Object_set valve_obj 0 (Some [7]) 1 [0] = Some (code UnableToSet, [7])"
  by (simp add: valve_obj_def Object_set_def Variable_Info_ctor_def Info.truncate_def
      set_variable_def set_wrapper_def check_def store_scalar_def write_bytes_def
      Object_data_def reject_setter_def decode_def)

text \<open>
  C8, amended. For an object bound to \<^verbatim>\<open>set_readonly\<close>, \<^verbatim>\<open>set_variable\<close>, \<^verbatim>\<open>set_default\<close>
  or \<^verbatim>\<open>set_string_variable\<close>, or to the record strategy over fields bound to these, a
  \<^verbatim>\<open>set\<close> that returns an error leaves the storage unchanged; on an object bound to
  \<^verbatim>\<open>set_readonly\<close>, \<^verbatim>\<open>set\<close> returns ReadOnly for every sub-index and every input and
  leaves the storage unchanged.
\<close>

theorem C8_failed_set_keeps_storage:
  assumes "f = set_function (base (obj_info obj))"
  shows
   "(direct f \<or> (f = fn_Record_set_data \<and>
        (\<forall>rinfo. as_Record (obj_info obj) = Some rinfo \<longrightarrow>
           (\<forall>fi\<in>set (fields_r rinfo). direct (set_function fi)))) \<longrightarrow>
      (\<forall>r h'. Object_set obj idx data bsize h = Some (r, h') \<and> r \<noteq> code OK \<longrightarrow> h' = h)) \<and>
    (f = fn_set_readonly \<longrightarrow> Object_set obj idx data bsize h = Some (code ReadOnly, h))"
proof (intro conjI impI allI)
  assume "f = fn_set_readonly"
  with assms show "Object_set obj idx data bsize h = Some (code ReadOnly, h)"
    by (simp add: Object_set_def set_readonly_def)
next
  fix r h'
  assume c: "direct f \<or> (f = fn_Record_set_data \<and>
        (\<forall>rinfo. as_Record (obj_info obj) = Some rinfo \<longrightarrow>
           (\<forall>fi\<in>set (fields_r rinfo). direct (set_function fi))))"
    and s: "Object_set obj idx data bsize h = Some (r, h') \<and> r \<noteq> code OK"
  from c show "h' = h"
  proof
    assume "direct f"
    with s assms show ?thesis
      by (auto simp: Object_set_def dest: call_direct_keeps)
  next
    assume r: "f = fn_Record_set_data \<and>
        (\<forall>rinfo. as_Record (obj_info obj) = Some rinfo \<longrightarrow>
           (\<forall>fi\<in>set (fields_r rinfo). direct (set_function fi)))"
    with s assms have "Record_set_data obj idx data bsize h = Some (r, h')"
      by (simp add: Object_set_def)
    with s r show ?thesis
      by (intro Record_set_data_keeps [of obj idx data bsize h r h']) auto
  qed
qed

theorem C8_failed_set_keeps_storage_witness:
  "Object_set status_obj 1 (Some [200, 0]) 2 [1, 2, 3] = Some (code ValueTooHigh, [1, 2, 3]) \<and>
   Object_set level_obj 0 (Some [200, 0]) 2 [1, 2] = Some (code ValueTooHigh, [1, 2]) \<and>
   Object_set serial_obj 5 (Some [1]) 1 [1, 2, 3, 4] = Some (code ReadOnly, [1, 2, 3, 4])"
proof -
  have r: "\<exists>h'. Object_set status_obj 1 (Some [200, 0]) 2 [1, 2, 3]
                  = Some (code ValueTooHigh, h')"
    by (simp add: Object_set_def status_obj_def status_info_eq Info.truncate_def
        Record_set_data_def set_default_def check_def decode_def)
  have v: "\<exists>h'. Object_set level_obj 0 (Some [200, 0]) 2 [1, 2] = Some (code ValueTooHigh, h')"
    by (simp add: Object_set_def level_obj_def Variable_make_info_def Variable_Info_ctor_def
        Info.truncate_def set_variable_def check_def decode_def)
  have fr: "set_function (base (obj_info status_obj)) = fn_Record_set_data"
    by (simp add: status_obj_def status_info_eq Info.truncate_def)
  have fv: "set_function (base (obj_info level_obj)) = fn_set_variable T_int16 (- 40) 125"
    by (simp add: level_obj_def Variable_make_info_def Variable_Info_ctor_def Info.truncate_def)
  have fs: "set_function (base (obj_info serial_obj)) = fn_set_readonly"
    by (simp add: serial_obj_def Variable_Info_ctor_def Info.truncate_def)
  have dr: "\<forall>rinfo. as_Record (obj_info status_obj) = Some rinfo \<longrightarrow>
              (\<forall>fi\<in>set (fields_r rinfo). direct (set_function fi))"
    by (simp add: status_obj_def status_info_eq)
  from r obtain h1 where h1: "Object_set status_obj 1 (Some [200, 0]) 2 [1, 2, 3]
      = Some (code ValueTooHigh, h1)" ..
  from v obtain h2 where h2: "Object_set level_obj 0 (Some [200, 0]) 2 [1, 2]
      = Some (code ValueTooHigh, h2)" ..
  from C8_failed_set_keeps_storage [OF fr [symmetric], of 1 "Some [200, 0]" 2 "[1, 2, 3]",
         THEN conjunct1] dr h1
  have "h1 = [1, 2, 3]" by simp
  moreover
  from C8_failed_set_keeps_storage [OF fv [symmetric], of 0 "Some [200, 0]" 2 "[1, 2]",
         THEN conjunct1] h2
  have "h2 = [1, 2]" by simp
  moreover
  from C8_failed_set_keeps_storage [OF fs [symmetric], of 5 "Some [1]" 1 "[1, 2, 3, 4]",
         THEN conjunct2]
  have "Object_set serial_obj 5 (Some [1]) 1 [1, 2, 3, 4] = Some (code ReadOnly, [1, 2, 3, 4])"
    by simp
  ultimately show ?thesis using h1 h2 by simp
qed

subsection \<open>Writing, then reading\<close>

lemma read_after_write:
  "p + length x \<le> length h \<Longrightarrow>
     read_bytes (take p h @ x @ drop (p + length x) h) p (length x) = Some x"
  by (simp add: read_bytes_def)

lemma unat_sizeof16: "unat (of_nat (sizeof T) :: uint16_t) = sizeof T"
  by (cases T) simp_all

lemma variable_roundtrip:
  assumes "obj_info obj = Variable_ptr vinfo" and "otype vinfo = Variable"
    and "set_function vinfo = fn_set_variable T vmin vmax"
    and "data_size vinfo = of_nat (sizeof T)"
    and "obj_data obj = Some p"
    and "p + unat (data_offset vinfo) + sizeof T \<le> length h"
    and "length x = sizeof T"
    and "vmin = vmax \<or> (vmin \<le> decode T x \<and> decode T x \<le> vmax)"
    and "sizeof T < bsize"
  shows "\<exists>h'. Object_set obj 0 (Some x) (sizeof T) h = Some (code OK, h') \<and>
              Object_get obj 0 bsize h' = Some (of_nat (sizeof T), x)"
proof -
  let ?a = "p + unat (data_offset vinfo)"
  let ?h' = "take ?a h @ x @ drop (?a + length x) h"
  have c: "check T vmin vmax (Some x) (sizeof T) = code OK"
    unfolding check_OK_iff using assms(8) by blast
  have w: "write_bytes h ?a (take (sizeof T) x) = Some ?h'"
    using assms(6,7) by (simp add: write_bytes_def)
  have s: "Object_set obj 0 (Some x) (sizeof T) h = Some (code OK, ?h')"
    using assms(1,3,5) c w
    by (simp add: Object_set_def set_variable_def Let_def store_scalar_def Object_data_def
        Info.truncate_def)
  have r: "read_bytes ?h' ?a (sizeof T) = Some x"
    using read_after_write [of ?a x h] assms(6,7) by simp
  have g: "Object_get obj 0 bsize ?h' = Some (of_nat (sizeof T), x)"
    using assms(1,2,4,5,9) r
    by (simp add: Object_get_def Object_get_buffer_def Let_def Info.truncate_def unat_sizeof16)
  from s g show ?thesis by blast
qed

lemma record_roundtrip:
  assumes "obj_info obj = Record_ptr rinfo" and "otype rinfo = Record"
    and "set_function rinfo = fn_Record_set_data"
    and "length (fields_r rinfo) = unat (nelem rinfo)"
    and "0 < k" and "k \<le> nelem rinfo"
    and "fi = fields_r rinfo ! (unat k - 1)"
    and "set_function fi = fn_set_default member T vmin vmax"
    and "data_size fi = of_nat (sizeof T)"
    and "unat (data_offset rinfo) + member = unat (data_offset fi)"
    and "obj_data obj = Some p"
    and "p + unat (data_offset fi) + sizeof T \<le> length h"
    and "length x = sizeof T"
    and "vmin = vmax \<or> (vmin \<le> decode T x \<and> decode T x \<le> vmax)"
    and "sizeof T \<le> bsize"
  shows "\<exists>h'. Object_set obj k (Some x) (sizeof T) h = Some (code OK, h') \<and>
              Object_get obj k bsize h' = Some (of_nat (sizeof T), x)"
proof -
  let ?a = "p + unat (data_offset fi)"
  let ?h' = "take ?a h @ x @ drop (?a + length x) h"
  have k: "unat k - 1 < unat (nelem rinfo)" "k \<noteq> 0" "\<not> nelem rinfo < k"
    using assms(5,6) unat_pred_lt by auto
  have c: "check T vmin vmax (Some x) (sizeof T) = code OK"
    unfolding check_OK_iff using assms(14) by blast
  have a: "p + unat (data_offset rinfo) + member = ?a"
    using assms(10) by simp
  have w: "write_bytes h ?a (take (sizeof T) x) = Some ?h'"
    using assms(12,13) by (simp add: write_bytes_def)
  have "Object_set obj k (Some x) (sizeof T) h
      = set_default member T vmin vmax obj k (Some x) (sizeof T) h"
    using assms(1-4,7,8) k
    by (simp add: Object_set_def Record_set_data_def Info.truncate_def)
  also have "\<dots> = store_scalar T (Some (p + unat (data_offset rinfo) + member)) (Some x) h"
    using assms(1,11) c
    by (simp add: set_default_def Let_def Object_data_def Info.truncate_def)
  also have "\<dots> = Some (code OK, ?h')"
    unfolding a using w by (simp add: store_scalar_def)
  finally have s: "Object_set obj k (Some x) (sizeof T) h = Some (code OK, ?h')" .
  have r: "read_bytes ?h' ?a (sizeof T) = Some x"
    using read_after_write [of ?a x h] assms(12,13) by simp
  have g: "Object_get obj k bsize ?h' = Some (of_nat (sizeof T), x)"
    using assms(1,2,4,6,7,9,11,15) k r
    by (simp add: Object_get_def Let_def Info.truncate_def unat_sizeof16)
  from s g show ?thesis by blast
qed

text \<open>The records \<open>window\<close> and \<open>band\<close>, as their constructors build them.\<close>

lemma window_info_eq:
  "window_info =
     \<lparr>otype = Record, type = DT_Record, nelem = 2, perm = UserConfig, data_offset = 2,
      data_size = 2, set_function = fn_Record_set_data,
      fields_r =
        [FieldInfo_ctor T_uint8 UserConfig ''lo'' 2 (fn_set_default 2 T_uint8 0 0) 0 0,
         FieldInfo_ctor T_uint8 UserConfig ''hi'' 3 (fn_set_default 3 T_uint8 0 0) 0 0]\<rparr>"
  by (simp add: window_info_def window_fields_def field_def Record_fields_def
      Record_make_info_def)

lemma band_info_eq:
  "band_info =
     \<lparr>otype = Record, type = DT_Record, nelem = 2, perm = UserConfig, data_offset = 2,
      data_size = 2, set_function = fn_Record_set_data,
      fields_r =
        [FieldInfo_ctor T_uint8 UserConfig ''lo'' 2 (fn_set_default 0 T_uint8 0 0) 0 0,
         FieldInfo_ctor T_uint8 UserConfig ''hi'' 3 (fn_set_default 1 T_uint8 0 0) 0 0]\<rparr>"
  by (simp add: band_info_def band_fields_def field_def Record_fields_def
      Record_make_info_def)

text \<open>
  C9, as the claim states it, fails in several ways. Three follow from how the strategies
  are written. The scalar strategy ignores the sub-index: on the variable \<open>speed\<close>,
  \<^verbatim>\<open>set(1, x)\<close> succeeds and \<^verbatim>\<open>get(1)\<close> fails with FieldNotFound; on the array \<open>gains\<close>,
  \<^verbatim>\<open>set(2, x)\<close> stores into the first element and \<^verbatim>\<open>get(2)\<close> returns the untouched second
  one. The string strategy pads with zeros: after \<^verbatim>\<open>set(0, x)\<close> with two bytes on \<open>label\<close>,
  \<^verbatim>\<open>get(0)\<close> returns the four bytes of the whole string. Two more come from places where
  writing and reading disagree. \<^verbatim>\<open>set_default\<close> stores at \<^verbatim>\<open>object.data()\<close>, which already
  holds the record's \<^verbatim>\<open>data_offset\<close>, plus the offset of the member, while \<^verbatim>\<open>get\<close> reads
  at the data pointer plus the field's \<^verbatim>\<open>data_offset\<close>: in the record \<open>window\<close>, which
  starts at offset 2 and whose first member is declared at offset 2, \<^verbatim>\<open>set(1, x)\<close> stores
  into byte 4 and \<^verbatim>\<open>get(1)\<close> returns the untouched byte 2. And the whole-object read of a
  variable copies only into a buffer larger than the value: after \<^verbatim>\<open>set(0, x)\<close> on
  \<open>speed\<close>, \<^verbatim>\<open>get(0)\<close> with a capacity of exactly two bytes returns 2 and no bytes.
\<close>

theorem C9_roundtrip_counterexample:
  "Object_set speed_obj 1 (Some [7, 0]) 2 [0, 0] = Some (code OK, [7, 0]) \<and>
   Object_get speed_obj 1 64 [7, 0] = Some (code FieldNotFound, []) \<and>
   Object_set gains_obj 2 (Some [9]) 1 [1, 2] = Some (code OK, [9, 2]) \<and>
   Object_get gains_obj 2 64 [9, 2] = Some (1, [2]) \<and>
   Object_set label_obj 0 (Some [0x61, 0x62]) 2 [0xFF, 0xFF, 0xFF, 0xFF]
     = Some (code OK, [0x61, 0x62, 0, 0]) \<and>
   Object_get label_obj 0 64 [0x61, 0x62, 0, 0] = Some (4, [0x61, 0x62, 0, 0]) \<and>
   map (\<lambda>f. (name f, data_offset f, set_function f)) (fields_r window_info)
     = [(''lo'', 2, fn_set_default 2 T_uint8 0 0), (''hi'', 3, fn_set_default 3 T_uint8 0 0)] \<and>
   data_offset window_info = 2 \<and>
   Object_set window_obj 1 (Some [7]) 1 [0, 0, 0, 0, 0, 0] = Some (code OK, [0, 0, 0, 0, 7, 0]) \<and>
   Object_get window_obj 1 64 [0, 0, 0, 0, 7, 0] = Some (1, [0]) \<and>
   Object_set speed_obj 0 (Some [7, 0]) 2 [0, 0] = Some (code OK, [7, 0]) \<and>
   Object_get speed_obj 0 2 [7, 0] = Some (2, [])"
proof -
  have a: "Object_set speed_obj 1 (Some [7, 0]) 2 [0, 0] = Some (code OK, [7, 0]) \<and>
   Object_get speed_obj 1 64 [7, 0] = Some (code FieldNotFound, []) \<and>
   Object_set gains_obj 2 (Some [9]) 1 [1, 2] = Some (code OK, [9, 2]) \<and>
   Object_get gains_obj 2 64 [9, 2] = Some (1, [2]) \<and>
   Object_set label_obj 0 (Some [0x61, 0x62]) 2 [0xFF, 0xFF, 0xFF, 0xFF]
     = Some (code OK, [0x61, 0x62, 0, 0]) \<and>
   Object_get label_obj 0 64 [0x61, 0x62, 0, 0] = Some (4, [0x61, 0x62, 0, 0])"
    by code_simp
  have b: "map (\<lambda>f. (name f, data_offset f, set_function f)) (fields_r window_info)
     = [(''lo'', 2, fn_set_default 2 T_uint8 0 0), (''hi'', 3, fn_set_default 3 T_uint8 0 0)]"
    "data_offset window_info = 2"
    by (simp_all add: window_info_eq FieldInfo_ctor_def)
  have c: "Object_set window_obj 1 (Some [7]) 1 [0, 0, 0, 0, 0, 0]
      = Some (code OK, [0, 0, 0, 0, 7, 0])"
    "Object_get window_obj 1 64 [0, 0, 0, 0, 7, 0] = Some (1, [0])"
    "Object_set speed_obj 0 (Some [7, 0]) 2 [0, 0] = Some (code OK, [7, 0])"
    "Object_get speed_obj 0 2 [7, 0] = Some (2, [])"
    by code_simp+
  from a b c show ?thesis by blast
qed

text \<open>
  C9, amended. For a variable bound to \<^verbatim>\<open>set_variable<T, min, max>\<close> with a bound data
  pointer, a value \<open>x\<close> of \<^verbatim>\<open>sizeof(T)\<close> bytes that is in range (or \<open>min = max\<close>) and a
  read capacity above \<^verbatim>\<open>sizeof(T)\<close>: \<^verbatim>\<open>set(0, x)\<close> succeeds and the following \<^verbatim>\<open>get(0)\<close>
  returns \<^verbatim>\<open>sizeof(T)\<close> and the bytes of \<open>x\<close>. For a record bound to the record strategy,
  a sub-index \<open>1 \<le> k \<le> nelem\<close> whose field is bound to \<^verbatim>\<open>set_default<.., T, member, ..>\<close>
  such that the record's \<^verbatim>\<open>data_offset\<close> plus the offset of the member in its data class
  equals the field's \<^verbatim>\<open>data_offset\<close> (a record that starts at offset 0 with every member
  declared at its own offset, or one whose field offsets count the record's start and
  whose data class begins there), such a value \<open>x\<close> and a read capacity of at least
  \<^verbatim>\<open>sizeof(T)\<close>: \<^verbatim>\<open>set(k, x)\<close> succeeds and the following \<^verbatim>\<open>get(k)\<close> returns
  \<^verbatim>\<open>sizeof(T)\<close> and the bytes of \<open>x\<close>. Nothing is stated for a record on which the two
  addresses differ, nor for a variable read with a capacity of exactly \<^verbatim>\<open>sizeof(T)\<close>.
\<close>

theorem C9_roundtrip:
  "(obj_info obj = Variable_ptr vinfo \<and> otype vinfo = Variable
      \<and> set_function vinfo = fn_set_variable T vmin vmax
      \<and> data_size vinfo = of_nat (sizeof T)
      \<and> obj_data obj = Some p \<and> p + unat (data_offset vinfo) + sizeof T \<le> length h
      \<and> length x = sizeof T
      \<and> (vmin = vmax \<or> (vmin \<le> decode T x \<and> decode T x \<le> vmax))
      \<and> sizeof T < bsize \<longrightarrow>
      (\<exists>h'. Object_set obj 0 (Some x) (sizeof T) h = Some (code OK, h') \<and>
            Object_get obj 0 bsize h' = Some (of_nat (sizeof T), x))) \<and>
   (obj_info obj = Record_ptr rinfo \<and> otype rinfo = Record
      \<and> set_function rinfo = fn_Record_set_data
      \<and> length (fields_r rinfo) = unat (nelem rinfo)
      \<and> 0 < k \<and> k \<le> nelem rinfo
      \<and> fi = fields_r rinfo ! (unat k - 1)
      \<and> set_function fi = fn_set_default member T vmin vmax
      \<and> data_size fi = of_nat (sizeof T)
      \<and> unat (data_offset rinfo) + member = unat (data_offset fi)
      \<and> obj_data obj = Some p \<and> p + unat (data_offset fi) + sizeof T \<le> length h
      \<and> length x = sizeof T
      \<and> (vmin = vmax \<or> (vmin \<le> decode T x \<and> decode T x \<le> vmax))
      \<and> sizeof T \<le> bsize \<longrightarrow>
      (\<exists>h'. Object_set obj k (Some x) (sizeof T) h = Some (code OK, h') \<and>
            Object_get obj k bsize h' = Some (of_nat (sizeof T), x)))"
proof (intro conjI impI)
  assume "obj_info obj = Variable_ptr vinfo \<and> otype vinfo = Variable
      \<and> set_function vinfo = fn_set_variable T vmin vmax
      \<and> data_size vinfo = of_nat (sizeof T)
      \<and> obj_data obj = Some p \<and> p + unat (data_offset vinfo) + sizeof T \<le> length h
      \<and> length x = sizeof T
      \<and> (vmin = vmax \<or> (vmin \<le> decode T x \<and> decode T x \<le> vmax))
      \<and> sizeof T < bsize"
  then show "\<exists>h'. Object_set obj 0 (Some x) (sizeof T) h = Some (code OK, h') \<and>
            Object_get obj 0 bsize h' = Some (of_nat (sizeof T), x)"
    using variable_roundtrip [of obj vinfo T vmin vmax p h x bsize] by blast
next
  assume "obj_info obj = Record_ptr rinfo \<and> otype rinfo = Record
      \<and> set_function rinfo = fn_Record_set_data
      \<and> length (fields_r rinfo) = unat (nelem rinfo)
      \<and> 0 < k \<and> k \<le> nelem rinfo
      \<and> fi = fields_r rinfo ! (unat k - 1)
      \<and> set_function fi = fn_set_default member T vmin vmax
      \<and> data_size fi = of_nat (sizeof T)
      \<and> unat (data_offset rinfo) + member = unat (data_offset fi)
      \<and> obj_data obj = Some p \<and> p + unat (data_offset fi) + sizeof T \<le> length h
      \<and> length x = sizeof T
      \<and> (vmin = vmax \<or> (vmin \<le> decode T x \<and> decode T x \<le> vmax))
      \<and> sizeof T \<le> bsize"
  then show "\<exists>h'. Object_set obj k (Some x) (sizeof T) h = Some (code OK, h') \<and>
            Object_get obj k bsize h' = Some (of_nat (sizeof T), x)"
    using record_roundtrip [of obj rinfo k fi member T vmin vmax p h x bsize] by blast
qed

theorem C9_roundtrip_witness:
  "(\<exists>h'. Object_set level_obj 0 (Some [85, 0]) 2 [0, 0] = Some (code OK, h') \<and>
         Object_get level_obj 0 64 h' = Some (2, [85, 0])) \<and>
   (\<exists>h'. Object_set status_obj 1 (Some [85, 0]) 2 [0, 0, 0] = Some (code OK, h') \<and>
         Object_get status_obj 1 2 h' = Some (2, [85, 0])) \<and>
   (\<exists>h'. Object_set band_obj 2 (Some [7]) 1 [0, 0, 0, 0] = Some (code OK, h') \<and>
         Object_get band_obj 2 1 h' = Some (1, [7]))"
proof -
  have v: "decode T_int16 [85, 0] = 85" by (simp add: decode_def)
  from C9_roundtrip [of level_obj "Variable_make_info T_int16 (- 40) 125 UserConfig" T_int16
         "- 40" 125 0 "[0, 0]" "[85, 0]" 64, THEN conjunct1]
  have a: "\<exists>h'. Object_set level_obj 0 (Some [85, 0]) 2 [0, 0] = Some (code OK, h') \<and>
         Object_get level_obj 0 64 h' = Some (2, [85, 0])"
    by (simp add: level_obj_def Variable_make_info_def Variable_Info_ctor_def v)
  from C9_roundtrip [where obj = status_obj and rinfo = status_info and k = 1
         and fi = "fields_r status_info ! 0" and member = 0 and T = T_int16
         and vmin = "- 40" and vmax = 125 and p = 0 and h = "[0, 0, 0]" and x = "[85, 0]"
         and bsize = 2, THEN conjunct2]
  have b: "\<exists>h'. Object_set status_obj 1 (Some [85, 0]) 2 [0, 0, 0] = Some (code OK, h') \<and>
         Object_get status_obj 1 2 h' = Some (2, [85, 0])"
    by (simp add: status_obj_def status_info_eq v)
  from C9_roundtrip [where obj = band_obj and rinfo = band_info and k = 2
         and fi = "fields_r band_info ! 1" and member = 1 and T = T_uint8
         and vmin = 0 and vmax = 0 and p = 0 and h = "[0, 0, 0, 0]" and x = "[7]"
         and bsize = 1, THEN conjunct2]
  have c: "\<exists>h'. Object_set band_obj 2 (Some [7]) 1 [0, 0, 0, 0] = Some (code OK, h') \<and>
         Object_get band_obj 2 1 h' = Some (1, [7])"
    by (simp add: band_obj_def band_info_eq FieldInfo_ctor_def)
  from a b c show ?thesis by blast
qed

subsection \<open>Heap sort\<close>

declare sift_down_loop.simps [simp del]

lemma sift_down_loop_unfold:
  "sift_down_loop cmp len topv xs start child =
     (if (len - 2) div 2 < child then xs[start := xs ! child, child := topv]
      else if cmp (xs[start := xs ! child] ! larger_child cmp len (xs[start := xs ! child]) child) topv
           then xs[start := xs ! child, child := topv]
           else sift_down_loop cmp len topv (xs[start := xs ! child]) child
                  (larger_child cmp len (xs[start := xs ! child]) child))"
proof (cases "(len - 2) div 2 < child")
  case True
  then show ?thesis
    by (subst sift_down_loop.simps) (simp add: Let_def)
next
  case False
  show ?thesis
  proof (cases "cmp (xs[start := xs ! child] ! larger_child cmp len (xs[start := xs ! child]) child) topv")
    case True
    with False show ?thesis
      by (subst sift_down_loop.simps) (auto simp: Let_def larger_child_def split: if_splits)
  next
    case nc: False
    with False show ?thesis
      by (subst sift_down_loop.simps) (auto simp: Let_def larger_child_def split: if_splits)
  qed
qed

lemma sift_down_loop_stop:
  "(len - 2) div 2 < child \<or>
   cmp (xs[start := xs ! child] ! larger_child cmp len (xs[start := xs ! child]) child) topv \<Longrightarrow>
     sift_down_loop cmp len topv xs start child = xs[start := xs ! child, child := topv]"
  by (subst sift_down_loop_unfold) auto

lemma sift_down_loop_rec:
  "\<not> (len - 2) div 2 < child \<Longrightarrow>
   \<not> cmp (xs[start := xs ! child] ! larger_child cmp len (xs[start := xs ! child]) child) topv \<Longrightarrow>
     sift_down_loop cmp len topv xs start child
       = sift_down_loop cmp len topv (xs[start := xs ! child]) child
           (larger_child cmp len (xs[start := xs ! child]) child)"
  by (subst sift_down_loop_unfold) simp

lemma sift_down_loop_induct':
  assumes "\<And>cmp len topv xs start child.
     (\<not> (len - 2) div 2 < child \<Longrightarrow>
      \<not> cmp (xs[start := xs ! child] ! larger_child cmp len (xs[start := xs ! child]) child) topv \<Longrightarrow>
      P cmp len topv (xs[start := xs ! child]) child
        (larger_child cmp len (xs[start := xs ! child]) child)) \<Longrightarrow>
     P cmp len topv xs start child"
  shows "P cmp len topv xs start child"
proof (induction cmp len topv xs start child rule: sift_down_loop.induct)
  case (1 cmp len topv xs start child)
  show ?case
  proof (rule assms)
    assume a: "\<not> (len - 2) div 2 < child"
      and b: "\<not> cmp (xs[start := xs ! child] ! larger_child cmp len (xs[start := xs ! child]) child) topv"
    show "P cmp len topv (xs[start := xs ! child]) child
        (larger_child cmp len (xs[start := xs ! child]) child)"
      unfolding larger_child_def
      by (rule "1.IH" [OF refl a refl refl b [unfolded larger_child_def]])
  qed
qed

lemma has_child: "2 \<le> len \<Longrightarrow> \<not> (len - 2) div 2 < child \<Longrightarrow> 2 * child + 1 < (len::nat)"
  by arith

lemma larger_child_facts:
  assumes "2 * i + 1 < len"
  shows "larger_child cmp len xs i < len" and "i < larger_child cmp len xs i"
    and "(larger_child cmp len xs i - 1) div 2 = i" and "0 < larger_child cmp len xs i"
  using assms by (auto simp: larger_child_def)

lemma sift_down_loop_length:
  "length (sift_down_loop cmp len topv xs start child) = length xs"
proof (induction cmp len topv xs start child rule: sift_down_loop_induct')
  case (1 cmp len topv xs start child)
  let ?xs1 = "xs[start := xs ! child]"
  show ?case
  proof (cases "(len - 2) div 2 < child \<or> cmp (?xs1 ! larger_child cmp len ?xs1 child) topv")
    case True
    then show ?thesis by (simp add: sift_down_loop_stop)
  next
    case False
    then have a: "\<not> (len - 2) div 2 < child"
      and b: "\<not> cmp (?xs1 ! larger_child cmp len ?xs1 child) topv" by simp_all
    from 1 [OF a b] show ?thesis by (simp add: sift_down_loop_rec a b)
  qed
qed

lemma sift_down_loop_outside:
  "2 \<le> len \<Longrightarrow> start < len \<Longrightarrow> child < len \<Longrightarrow> len \<le> i \<Longrightarrow>
     sift_down_loop cmp len topv xs start child ! i = xs ! i"
proof (induction cmp len topv xs start child rule: sift_down_loop_induct')
  case (1 cmp len topv xs start child)
  let ?xs1 = "xs[start := xs ! child]"
  show ?case
  proof (cases "(len - 2) div 2 < child \<or> cmp (?xs1 ! larger_child cmp len ?xs1 child) topv")
    case True
    then show ?thesis using 1(2-) by (simp add: sift_down_loop_stop)
  next
    case False
    then have a: "\<not> (len - 2) div 2 < child"
      and b: "\<not> cmp (?xs1 ! larger_child cmp len ?xs1 child) topv" by simp_all
    from 1(2) a have c: "2 * child + 1 < len" by (rule has_child)
    have "sift_down_loop cmp len topv ?xs1 child (larger_child cmp len ?xs1 child) ! i = ?xs1 ! i"
      using 1(1) [OF a b 1(2) 1(4) larger_child_facts(1) [OF c] 1(5)] .
    then show ?thesis
      using 1(3,5) by (simp add: sift_down_loop_rec a b)
  qed
qed

lemma mset_move_hole:
  assumes "i < length xs" and "j < length xs" and "i \<noteq> j"
  shows "mset (xs[i := xs ! j, j := v]) = mset (xs[i := v])"
proof -
  let ?V = "xs[i := v]"
  have "mset (?V[j := ?V ! i, i := ?V ! j]) = mset ?V"
    using assms by (intro mset_swap) simp_all
  moreover have "?V[j := ?V ! i, i := ?V ! j] = xs[i := xs ! j, j := v]"
    using assms by (auto simp: list_eq_iff_nth_eq nth_list_update)
  ultimately show ?thesis by simp
qed

lemma sift_down_loop_mset:
  "2 \<le> len \<Longrightarrow> len \<le> length xs \<Longrightarrow> start < child \<Longrightarrow> child < len \<Longrightarrow>
     mset (sift_down_loop cmp len topv xs start child) = mset (xs[start := topv])"
proof (induction cmp len topv xs start child rule: sift_down_loop_induct')
  case (1 cmp len topv xs start child)
  let ?xs1 = "xs[start := xs ! child]"
  have fin: "mset (xs[start := xs ! child, child := topv]) = mset (xs[start := topv])"
    using 1(2-) by (intro mset_move_hole) simp_all
  show ?case
  proof (cases "(len - 2) div 2 < child \<or> cmp (?xs1 ! larger_child cmp len ?xs1 child) topv")
    case True
    then show ?thesis using fin by (simp add: sift_down_loop_stop)
  next
    case False
    then have a: "\<not> (len - 2) div 2 < child"
      and b: "\<not> cmp (?xs1 ! larger_child cmp len ?xs1 child) topv" by simp_all
    from 1(2) a have c: "2 * child + 1 < len" by (rule has_child)
    have "mset (sift_down_loop cmp len topv ?xs1 child (larger_child cmp len ?xs1 child))
          = mset (?xs1[child := topv])"
      using 1(1) [OF a b 1(2) _ larger_child_facts(2) [OF c] larger_child_facts(1) [OF c]] 1(3)
      by simp
    with fin show ?thesis
      by (simp add: sift_down_loop_rec a b)
  qed
qed

lemma larger_child_max:
  fixes f :: "'a \<Rightarrow> 'k::linorder"
  assumes "\<forall>a b. cmp a b = (f a < f b)" and "0 < c" and "c < len" and "(c - 1) div 2 = i"
  shows "f (xs ! c) \<le> f (xs ! larger_child cmp len xs i)"
proof -
  from assms(2,4) have "c = 2 * i + 1 \<or> c = 2 * i + 1 + 1" by arith
  then show ?thesis
  proof
    assume "c = 2 * i + 1"
    then show ?thesis using assms(1) by (auto simp: larger_child_def)
  next
    assume "c = 2 * i + 1 + 1"
    then show ?thesis using assms(1,3) by (auto simp: larger_child_def)
  qed
qed

lemma sift_down_loop_heap:
  fixes f :: "'a \<Rightarrow> 'k::linorder"
  shows "\<forall>a b. cmp a b = (f a < f b) \<Longrightarrow> 2 \<le> len \<Longrightarrow> len \<le> length xs \<Longrightarrow> 0 < child \<Longrightarrow>
    child < len \<Longrightarrow> start = (child - 1) div 2 \<Longrightarrow> s0 \<le> start \<Longrightarrow>
    (\<forall>j. 0 < j \<and> j < len \<and> s0 \<le> (j - 1) div 2 \<and> (j - 1) div 2 \<noteq> start \<and> j \<noteq> start
        \<longrightarrow> f (xs ! j) \<le> f (xs ! ((j - 1) div 2))) \<Longrightarrow>
    (0 < start \<and> s0 \<le> (start - 1) div 2 \<longrightarrow>
       f topv \<le> f (xs ! ((start - 1) div 2)) \<and>
       (\<forall>c. 0 < c \<and> c < len \<and> (c - 1) div 2 = start
            \<longrightarrow> f (xs ! c) \<le> f (xs ! ((start - 1) div 2)))) \<Longrightarrow>
    f topv \<le> f (xs ! child) \<Longrightarrow>
    (\<forall>c. 0 < c \<and> c < len \<and> (c - 1) div 2 = start \<longrightarrow> f (xs ! c) \<le> f (xs ! child)) \<Longrightarrow>
    heap_from f (sift_down_loop cmp len topv xs start child) len s0"
proof (induction cmp len topv xs start child rule: sift_down_loop_induct')
  case (1 cmp len topv xs start child)
  note cmp = "1.prems"(1) and len2 = "1.prems"(2) and lenxs = "1.prems"(3)
    and cpos = "1.prems"(4) and clen = "1.prems"(5) and par = "1.prems"(6)
    and s0 = "1.prems"(7) and I1 = "1.prems"(8) and I2 = "1.prems"(9)
    and I3a = "1.prems"(10) and I3b = "1.prems"(11)
  let ?xs1 = "xs[start := xs ! child]"
  let ?lc = "larger_child cmp len ?xs1 child"
  from cpos par have sc: "start < child" by arith
  with clen lenxs have sl: "start < length xs" "child < length xs" by simp_all
  have cchild: "0 < child \<and> child < len \<and> (child - 1) div 2 = start"
    using cpos clen par by simp
  have final: "heap_from f (?xs1[child := topv]) len s0"
    if kids: "\<forall>c. 0 < c \<and> c < len \<and> (c - 1) div 2 = child \<longrightarrow> f (xs ! c) \<le> f topv"
    unfolding heap_from_def
  proof (intro allI impI)
    fix j :: nat
    let ?p = "(j - 1) div 2"
    let ?ys = "?xs1[child := topv]"
    assume j: "0 < j \<and> j < len \<and> s0 \<le> ?p"
    then have pj: "?p < j" by arith
    from j lenxs have jl: "j < length xs" "?p < length xs" using pj by simp_all
    show "f (?ys ! j) \<le> f (?ys ! ?p)"
    proof (cases "j = child")
      case True
      with par have "?p = start" by simp
      with True sc sl I3a show ?thesis by simp
    next
      case jc: False
      show ?thesis
      proof (cases "j = start")
        case True
        with pj sc have ne: "?p \<noteq> start" "?p \<noteq> child" by simp_all
        from True j have "0 < start \<and> s0 \<le> (start - 1) div 2" by simp
        with I2 cchild have "f (xs ! child) \<le> f (xs ! ((start - 1) div 2))" by blast
        with True ne sc sl show ?thesis by simp
      next
        case js: False
        show ?thesis
        proof (cases "?p = start")
          case True
          with j I3b have "f (xs ! j) \<le> f (xs ! child)" by blast
          with True jc js sc sl show ?thesis by simp
        next
          case ps: False
          show ?thesis
          proof (cases "?p = child")
            case True
            with j kids have "f (xs ! j) \<le> f topv" by blast
            with True jc js sl show ?thesis by simp
          next
            case False
            from j ps js I1 have "f (xs ! j) \<le> f (xs ! ?p)" by blast
            with False ps jc js show ?thesis by simp
          qed
        qed
      qed
    qed
  qed
  show ?case
  proof (cases "(len - 2) div 2 < child")
    case nk: True
    have "heap_from f (?xs1[child := topv]) len s0"
    proof (rule final, intro allI impI)
      fix c :: nat assume "0 < c \<and> c < len \<and> (c - 1) div 2 = child"
      with nk have False by arith
      then show "f (xs ! c) \<le> f topv" ..
    qed
    with nk show ?thesis by (simp add: sift_down_loop_stop)
  next
    case a: False
    from len2 a have c: "2 * child + 1 < len" by (rule has_child)
    show ?thesis
    proof (cases "cmp (?xs1 ! ?lc) topv")
      case b: True
      have "heap_from f (?xs1[child := topv]) len s0"
      proof (rule final, intro allI impI)
        fix c :: nat assume cc: "0 < c \<and> c < len \<and> (c - 1) div 2 = child"
        then have "start \<noteq> c" using sc by arith
        then have "f (xs ! c) = f (?xs1 ! c)" by simp
        also from cc cmp have "\<dots> \<le> f (?xs1 ! ?lc)"
          by (intro larger_child_max [of cmp f c len child]) simp_all
        also from b cmp have "\<dots> < f topv" by simp
        finally show "f (xs ! c) \<le> f topv" by simp
      qed
      with b show ?thesis by (simp add: sift_down_loop_stop)
    next
      case b: False
      note lc = larger_child_facts [OF c, of cmp ?xs1]
      have "heap_from f (sift_down_loop cmp len topv ?xs1 child ?lc) len s0"
      proof (rule "1.IH" [OF a b cmp len2 _ lc(4) lc(1) lc(3) [symmetric]])
        show "len \<le> length ?xs1" using lenxs by simp
        show "s0 \<le> child" using s0 sc by simp
        show "f topv \<le> f (?xs1 ! ?lc)" using b cmp by simp
        show "\<forall>c. 0 < c \<and> c < len \<and> (c - 1) div 2 = child \<longrightarrow> f (?xs1 ! c) \<le> f (?xs1 ! ?lc)"
          using cmp by (auto intro: larger_child_max)
        show "\<forall>j. 0 < j \<and> j < len \<and> s0 \<le> (j - 1) div 2 \<and> (j - 1) div 2 \<noteq> child \<and> j \<noteq> child
                \<longrightarrow> f (?xs1 ! j) \<le> f (?xs1 ! ((j - 1) div 2))"
        proof (intro allI impI)
          fix j :: nat
          let ?p = "(j - 1) div 2"
          assume j: "0 < j \<and> j < len \<and> s0 \<le> ?p \<and> ?p \<noteq> child \<and> j \<noteq> child"
          then have pj: "?p < j" by arith
          show "f (?xs1 ! j) \<le> f (?xs1 ! ?p)"
          proof (cases "j = start")
            case True
            with pj have ne: "?p \<noteq> start" by simp
            from True j have "0 < start \<and> s0 \<le> (start - 1) div 2" by simp
            with I2 cchild have "f (xs ! child) \<le> f (xs ! ((start - 1) div 2))" by blast
            with True ne sl show ?thesis by simp
          next
            case js: False
            show ?thesis
            proof (cases "?p = start")
              case True
              with j I3b have "f (xs ! j) \<le> f (xs ! child)" by blast
              with True js sl show ?thesis by simp
            next
              case False
              with j js I1 have "f (xs ! j) \<le> f (xs ! ?p)" by blast
              with False js show ?thesis by simp
            qed
          qed
        qed
        show "0 < child \<and> s0 \<le> (child - 1) div 2 \<longrightarrow>
           f topv \<le> f (?xs1 ! ((child - 1) div 2)) \<and>
           (\<forall>c. 0 < c \<and> c < len \<and> (c - 1) div 2 = child
                \<longrightarrow> f (?xs1 ! c) \<le> f (?xs1 ! ((child - 1) div 2)))"
        proof (intro impI conjI allI)
          show "f topv \<le> f (?xs1 ! ((child - 1) div 2))"
            using par I3a sl by simp
        next
          fix c :: nat assume cc: "0 < c \<and> c < len \<and> (c - 1) div 2 = child"
          then have ne: "c \<noteq> start" using sc by arith
          from cc s0 sc have "0 < c \<and> c < len \<and> s0 \<le> (c - 1) div 2 \<and> (c - 1) div 2 \<noteq> start \<and> c \<noteq> start"
            using ne by simp
          with I1 have "f (xs ! c) \<le> f (xs ! ((c - 1) div 2))" by blast
          with cc ne par sl show "f (?xs1 ! c) \<le> f (?xs1 ! ((child - 1) div 2))" by simp
        qed
      qed
      then show ?thesis by (simp add: sift_down_loop_rec a b)
    qed
  qed
qed

lemma sift_down_unfold:
  "sift_down cmp xs len start =
     (if len < 2 \<or> (len - 2) div 2 < start then xs
      else if cmp (xs ! larger_child cmp len xs start) (xs ! start) then xs
      else sift_down_loop cmp len (xs ! start) xs start (larger_child cmp len xs start))"
  by (simp add: sift_down_def Let_def larger_child_def)

lemma sift_down_length: "length (sift_down cmp xs len start) = length xs"
  by (simp add: sift_down_unfold sift_down_loop_length)

lemma sift_down_outside:
  "len \<le> i \<Longrightarrow> sift_down cmp xs len start ! i = xs ! i"
proof (cases "len < 2 \<or> (len - 2) div 2 < start")
  case True
  then show ?thesis by (simp add: sift_down_unfold)
next
  case False
  then have l: "2 \<le> len" and "\<not> (len - 2) div 2 < start" by simp_all
  then have c: "2 * start + 1 < len" by (rule has_child)
  assume "len \<le> i"
  with l c larger_child_facts(1) [OF c, of cmp xs] show ?thesis
    by (simp add: sift_down_unfold sift_down_loop_outside)
qed

lemma sift_down_mset:
  "len \<le> length xs \<Longrightarrow> mset (sift_down cmp xs len start) = mset xs"
proof (cases "len < 2 \<or> (len - 2) div 2 < start")
  case True
  then show ?thesis by (simp add: sift_down_unfold)
next
  case False
  then have l: "2 \<le> len" and "\<not> (len - 2) div 2 < start" by simp_all
  then have c: "2 * start + 1 < len" by (rule has_child)
  assume "len \<le> length xs"
  then have "mset (sift_down_loop cmp len (xs ! start) xs start (larger_child cmp len xs start))
      = mset (xs[start := xs ! start])"
    using l larger_child_facts(2) [OF c] larger_child_facts(1) [OF c]
    by (intro sift_down_loop_mset)
  then show ?thesis
    by (simp add: sift_down_unfold)
qed

lemma sift_down_heap:
  fixes f :: "'a \<Rightarrow> 'k::linorder"
  assumes cmp: "\<forall>a b. cmp a b = (f a < f b)" and lenxs: "len \<le> length xs"
    and h: "heap_from f xs len (Suc start)"
  shows "heap_from f (sift_down cmp xs len start) len start"
proof (cases "len < 2 \<or> (len - 2) div 2 < start")
  case True
  have "heap_from f xs len start"
    unfolding heap_from_def
  proof (intro allI impI)
    fix j :: nat
    assume j: "0 < j \<and> j < len \<and> start \<le> (j - 1) div 2"
    with True have "Suc start \<le> (j - 1) div 2" by arith
    with j h show "f (xs ! j) \<le> f (xs ! ((j - 1) div 2))"
      unfolding heap_from_def by blast
  qed
  with True show ?thesis by (simp add: sift_down_unfold)
next
  case False
  then have l: "2 \<le> len" and nk: "\<not> (len - 2) div 2 < start" by simp_all
  then have c: "2 * start + 1 < len" by (rule has_child)
  let ?lc = "larger_child cmp len xs start"
  note lc = larger_child_facts [OF c, of cmp xs]
  have kids: "\<forall>c. 0 < c \<and> c < len \<and> (c - 1) div 2 = start \<longrightarrow> f (xs ! c) \<le> f (xs ! ?lc)"
    using cmp by (auto intro: larger_child_max)
  show ?thesis
  proof (cases "cmp (xs ! ?lc) (xs ! start)")
    case True
    have "heap_from f xs len start"
      unfolding heap_from_def
    proof (intro allI impI)
      fix j :: nat
      assume j: "0 < j \<and> j < len \<and> start \<le> (j - 1) div 2"
      show "f (xs ! j) \<le> f (xs ! ((j - 1) div 2))"
      proof (cases "(j - 1) div 2 = start")
        case ps: True
        with j kids have "f (xs ! j) \<le> f (xs ! ?lc)" by blast
        also from True cmp have "\<dots> < f (xs ! start)" by simp
        finally show ?thesis using ps by simp
      next
        case False
        with j have "Suc start \<le> (j - 1) div 2" by arith
        with j h show ?thesis unfolding heap_from_def by blast
      qed
    qed
    with False True show ?thesis by (simp add: sift_down_unfold)
  next
    case nc: False
    have "heap_from f (sift_down_loop cmp len (xs ! start) xs start ?lc) len start"
    proof (rule sift_down_loop_heap [OF cmp l lenxs lc(4) lc(1) lc(3) [symmetric] le_refl])
      show "\<forall>j. 0 < j \<and> j < len \<and> start \<le> (j - 1) div 2 \<and> (j - 1) div 2 \<noteq> start \<and> j \<noteq> start
              \<longrightarrow> f (xs ! j) \<le> f (xs ! ((j - 1) div 2))"
      proof (intro allI impI)
        fix j :: nat
        assume j: "0 < j \<and> j < len \<and> start \<le> (j - 1) div 2 \<and> (j - 1) div 2 \<noteq> start \<and> j \<noteq> start"
        then have "Suc start \<le> (j - 1) div 2" by arith
        with j h show "f (xs ! j) \<le> f (xs ! ((j - 1) div 2))"
          unfolding heap_from_def by blast
      qed
      show "0 < start \<and> start \<le> (start - 1) div 2 \<longrightarrow>
         f (xs ! start) \<le> f (xs ! ((start - 1) div 2)) \<and>
         (\<forall>c. 0 < c \<and> c < len \<and> (c - 1) div 2 = start
              \<longrightarrow> f (xs ! c) \<le> f (xs ! ((start - 1) div 2)))"
        by arith
      show "f (xs ! start) \<le> f (xs ! ?lc)" using nc cmp by simp
      show "\<forall>c. 0 < c \<and> c < len \<and> (c - 1) div 2 = start \<longrightarrow> f (xs ! c) \<le> f (xs ! ?lc)"
        by (rule kids)
    qed
    with False nc show ?thesis by (simp add: sift_down_unfold)
  qed
qed

lemma make_heap_loop_spec:
  fixes f :: "'a \<Rightarrow> 'k::linorder"
  assumes cmp: "\<forall>a b. cmp a b = (f a < f b)"
  shows "N \<le> length xs \<Longrightarrow> heap_from f xs N (Suc start) \<Longrightarrow>
     heap_from f (make_heap_loop cmp N start xs) N 0 \<and>
     mset (make_heap_loop cmp N start xs) = mset xs"
proof (induction start arbitrary: xs)
  case 0
  with sift_down_heap [OF cmp, of N xs 0] show ?case
    by (simp add: sift_down_mset)
next
  case (Suc start)
  let ?ys = "sift_down cmp xs N (Suc start)"
  have "heap_from f ?ys N (Suc start)"
    using Suc.prems by (intro sift_down_heap [OF cmp])
  moreover have "N \<le> length ?ys" using Suc.prems by (simp add: sift_down_length)
  ultimately have "heap_from f (make_heap_loop cmp N start ?ys) N 0 \<and>
     mset (make_heap_loop cmp N start ?ys) = mset ?ys"
    by (intro Suc.IH)
  with Suc.prems show ?case by (simp add: sift_down_mset)
qed

lemma make_heap_spec:
  fixes f :: "'a \<Rightarrow> 'k::linorder"
  assumes cmp: "\<forall>a b. cmp a b = (f a < f b)"
  shows "heap_from f (make_heap cmp xs) (length xs) 0 \<and> mset (make_heap cmp xs) = mset xs"
proof (cases "length xs < 1")
  case True
  then show ?thesis by (simp add: make_heap_def heap_from_def)
next
  case False
  have "heap_from f xs (length xs) (Suc ((length xs - 2) div 2))"
    unfolding heap_from_def by (intro allI impI) arith
  from make_heap_loop_spec [OF cmp le_refl this] False show ?thesis
    by (simp add: make_heap_def Let_def)
qed

lemma heap_root_max:
  fixes f :: "'a \<Rightarrow> 'k::linorder"
  assumes "heap_from f xs n 0"
  shows "i < n \<Longrightarrow> f (xs ! i) \<le> f (xs ! 0)"
proof (induction i rule: less_induct)
  case (less i)
  show ?case
  proof (cases "i = 0")
    case True
    then show ?thesis by simp
  next
    case False
    then have p: "(i - 1) div 2 < i" by arith
    from False less.prems assms have "f (xs ! i) \<le> f (xs ! ((i - 1) div 2))"
      unfolding heap_from_def by simp
    also have "\<dots> \<le> f (xs ! 0)"
      using p less.prems by (intro less.IH) simp_all
    finally show ?thesis .
  qed
qed

declare sort_heap_loop.simps [simp del]
declare lower_bound.simps [simp del]

lemma take_drop_mset_cancel:
  assumes "mset ys = mset zs" and "drop m ys = drop m zs"
  shows "mset (take m ys) = mset (take m zs)"
proof -
  have "mset (take m ys) + mset (drop m ys) = mset (take m zs) + mset (drop m zs)"
    using assms(1) by (simp flip: mset_append)
  with assms(2) show ?thesis by simp
qed

lemma drop_eqI:
  assumes "length ys = length zs" and "\<forall>i. m \<le> i \<longrightarrow> ys ! i = zs ! i"
  shows "drop m ys = drop m zs"
  using assms by (auto simp: list_eq_iff_nth_eq)

lemma length_iter_swap: "length (iter_swap xs a b) = length xs"
  by (simp add: iter_swap_def Let_def)

lemma pop_heap_spec:
  fixes f :: "'a \<Rightarrow> 'k::linorder"
  assumes cmp: "\<forall>a b. cmp a b = (f a < f b)" and n: "1 < n" "n \<le> length xs"
    and h: "heap_from f xs n 0"
  shows "heap_from f (pop_heap cmp xs n) (n - 1) 0"
    and "mset (pop_heap cmp xs n) = mset xs"
    and "length (pop_heap cmp xs n) = length xs"
    and "drop (n - 1) (pop_heap cmp xs n) = xs ! 0 # drop n xs"
    and "set (take (n - 1) (pop_heap cmp xs n)) \<subseteq> set (take n xs)"
proof -
  let ?xs' = "iter_swap xs 0 (n - 1)"
  let ?ys = "sift_down cmp ?xs' (n - 1) 0"
  have p: "pop_heap cmp xs n = ?ys" using n by (simp add: pop_heap_def)
  have sw: "?xs' = xs[0 := xs ! (n - 1), n - 1 := xs ! 0]"
    by (simp add: iter_swap_def Let_def)
  have lx: "length ?xs' = length xs" unfolding sw by simp
  have xl: "0 < length xs" "n - 1 < length xs" "0 \<noteq> n - 1" using n by arith+
  have mx: "mset ?xs' = mset xs"
    unfolding sw using n by (intro mset_swap) auto
  have h': "heap_from f ?xs' (n - 1) (Suc 0)"
    unfolding heap_from_def
  proof (intro allI impI)
    fix j :: nat
    assume j: "0 < j \<and> j < n - 1 \<and> Suc 0 \<le> (j - 1) div 2"
    then have "(j - 1) div 2 < j" by arith
    with j have ne: "j \<noteq> 0" "j \<noteq> n - 1" "(j - 1) div 2 \<noteq> 0" "(j - 1) div 2 \<noteq> n - 1"
      by arith+
    from j have "0 < j \<and> j < n \<and> 0 \<le> (j - 1) div 2" by arith
    with h have "f (xs ! j) \<le> f (xs ! ((j - 1) div 2))"
      unfolding heap_from_def by blast
    with ne show "f (?xs' ! j) \<le> f (?xs' ! ((j - 1) div 2))"
      unfolding sw by simp
  qed
  have le: "n - 1 \<le> length ?xs'" using n lx by simp
  show "heap_from f (pop_heap cmp xs n) (n - 1) 0"
    unfolding p using cmp le h' by (rule sift_down_heap)
  show m: "mset (pop_heap cmp xs n) = mset xs"
    unfolding p using le mx by (simp add: sift_down_mset)
  show l: "length (pop_heap cmp xs n) = length xs"
    unfolding p by (simp add: sift_down_length length_iter_swap)
  have "drop (n - 1) ?ys = drop (n - 1) ?xs'"
    by (rule drop_eqI) (simp_all add: sift_down_length sift_down_outside length_iter_swap)
  also have "\<dots> = ?xs' ! (n - 1) # drop (Suc (n - 1)) ?xs'"
    using n lx by (intro Cons_nth_drop_Suc [symmetric]) simp
  also have "?xs' ! (n - 1) = xs ! 0" unfolding sw using n xl by simp
  also have "drop (Suc (n - 1)) ?xs' = drop n xs" unfolding sw using n xl by simp
  finally show d: "drop (n - 1) (pop_heap cmp xs n) = xs ! 0 # drop n xs"
    unfolding p .
  have "drop (n - 1) ?ys = drop (n - 1) ?xs'"
    by (rule drop_eqI) (simp_all add: sift_down_length sift_down_outside length_iter_swap)
  moreover have "mset ?ys = mset ?xs'" using le by (simp add: sift_down_mset)
  ultimately have "mset (take (n - 1) ?ys) = mset (take (n - 1) ?xs')"
    by (intro take_drop_mset_cancel)
  then have "set (take (n - 1) ?ys) = set (take (n - 1) ?xs')"
    by (rule mset_eq_setD)
  also have "\<dots> \<subseteq> set (take n xs)"
  proof
    fix x assume "x \<in> set (take (n - 1) ?xs')"
    then obtain i where i: "i < n - 1" "x = ?xs' ! i"
      using lx n by (auto simp: in_set_conv_nth)
    show "x \<in> set (take n xs)"
    proof (cases "i = 0")
      case True
      with i n xl have "x = xs ! (n - 1)" unfolding sw by simp
      with n show ?thesis by (auto simp: in_set_conv_nth intro!: exI [of _ "n - 1"])
    next
      case False
      with i n xl have "x = xs ! i" unfolding sw by simp
      with i n show ?thesis by (auto simp: in_set_conv_nth intro!: exI [of _ i])
    qed
  qed
  finally show "set (take (n - 1) (pop_heap cmp xs n)) \<subseteq> set (take n xs)"
    unfolding p .
qed

lemma sort_heap_loop_spec:
  fixes f :: "'a \<Rightarrow> 'k::linorder"
  assumes cmp: "\<forall>a b. cmp a b = (f a < f b)"
  shows "n \<le> length xs \<Longrightarrow> heap_from f xs n 0 \<Longrightarrow> sorted (map f (drop n xs)) \<Longrightarrow>
     (\<forall>x\<in>set (take n xs). \<forall>y\<in>set (drop n xs). f x \<le> f y) \<Longrightarrow>
     sorted (map f (sort_heap_loop cmp xs n)) \<and> mset (sort_heap_loop cmp xs n) = mset xs"
proof (induction n arbitrary: xs rule: less_induct)
  case (less n)
  show ?case
  proof (cases "1 < n")
    case False
    then have r: "sort_heap_loop cmp xs n = xs"
      by (subst sort_heap_loop.simps) simp
    have "sorted (map f xs)"
    proof (cases "n = 0")
      case True
      with less.prems show ?thesis by simp
    next
      case n0: False
      with False have n1: "n = 1" by simp
      with less.prems have "xs = xs ! 0 # drop 1 xs"
        by (cases xs) simp_all
      moreover have "sorted (map f (xs ! 0 # drop 1 xs))"
      proof -
        have "xs ! 0 \<in> set (take n xs)"
          using n1 less.prems(1) by (cases xs) simp_all
        with less.prems(4) have "\<forall>y\<in>set (drop 1 xs). f (xs ! 0) \<le> f y"
          using n1 by simp
        with less.prems(3) n1 show ?thesis by simp
      qed
      ultimately show ?thesis by simp
    qed
    with r show ?thesis by simp
  next
    case True
    let ?ys = "pop_heap cmp xs n"
    note ph = pop_heap_spec [OF cmp True less.prems(1,2)]
    have r: "sort_heap_loop cmp xs n = sort_heap_loop cmp ?ys (n - 1)"
      using True by (subst sort_heap_loop.simps) simp
    have x0: "xs ! 0 \<in> set (take n xs)"
      using True less.prems(1) by (auto simp: in_set_conv_nth intro!: exI [of _ 0])
    have root: "\<forall>x\<in>set (take n xs). f x \<le> f (xs ! 0)"
      using heap_root_max [OF less.prems(2)] less.prems(1)
      by (auto simp: in_set_conv_nth)
    have s: "sorted (map f (drop (n - 1) ?ys))"
      unfolding ph(4) using less.prems(3,4) x0 by simp
    have b: "\<forall>x\<in>set (take (n - 1) ?ys). \<forall>y\<in>set (drop (n - 1) ?ys). f x \<le> f y"
    proof (intro ballI)
      fix x y assume "x \<in> set (take (n - 1) ?ys)" and y: "y \<in> set (drop (n - 1) ?ys)"
      with ph(5) have x: "x \<in> set (take n xs)" by blast
      from y have "y = xs ! 0 \<or> y \<in> set (drop n xs)" unfolding ph(4) by simp
      with x root less.prems(4) show "f x \<le> f y" by blast
    qed
    have "sorted (map f (sort_heap_loop cmp ?ys (n - 1))) \<and>
        mset (sort_heap_loop cmp ?ys (n - 1)) = mset ?ys"
      using True less.prems(1) ph(1) s b
      by (intro less.IH) (simp_all add: ph(3))
    with r ph(2) show ?thesis by simp
  qed
qed

lemma sort_range_spec:
  fixes f :: "'a \<Rightarrow> 'k::linorder"
  assumes cmp: "\<forall>a b. cmp a b = (f a < f b)"
  shows "sorted (map f (sort_range cmp xs)) \<and> mset (sort_range cmp xs) = mset xs"
proof -
  let ?h = "make_heap cmp xs"
  note mh = make_heap_spec [OF cmp, of xs]
  from mh have l: "length ?h = length xs" by (metis size_mset)
  have "sorted (map f (sort_heap_loop cmp ?h (length ?h))) \<and>
      mset (sort_heap_loop cmp ?h (length ?h)) = mset ?h"
    using mh l by (intro sort_heap_loop_spec [OF cmp]) simp_all
  with mh show ?thesis by (simp add: sort_range_def sort_heap_def)
qed

subsection \<open>Binary search and the sorted dictionary\<close>

lemma lower_bound_spec:
  fixes f :: "'a \<Rightarrow> 'k::linorder"
  assumes srt: "sorted (map f xs)"
  shows "first + cnt \<le> length xs \<Longrightarrow> (\<forall>i<first. f (xs ! i) < v) \<Longrightarrow>
     (\<forall>i. first + cnt \<le> i \<and> i < length xs \<longrightarrow> v \<le> f (xs ! i)) \<Longrightarrow>
     lower_bound xs first cnt v (\<lambda>l a. f l < a) \<le> length xs \<and>
     (\<forall>i<lower_bound xs first cnt v (\<lambda>l a. f l < a). f (xs ! i) < v) \<and>
     (\<forall>i. lower_bound xs first cnt v (\<lambda>l a. f l < a) \<le> i \<and> i < length xs \<longrightarrow> v \<le> f (xs ! i))"
proof (induction cnt arbitrary: first rule: less_induct)
  case (less cnt)
  have mono: "f (xs ! i) \<le> f (xs ! j)" if "i \<le> j" "j < length xs" for i j
    using srt that by (simp add: sorted_iff_nth_mono)
  show ?case
  proof (cases "0 < cnt")
    case False
    then have "lower_bound xs first cnt v (\<lambda>l a. f l < a) = first"
      by (subst lower_bound.simps) simp
    with less.prems False show ?thesis by simp
  next
    case True
    let ?step = "cnt div 2"
    let ?it = "first + ?step"
    from True less.prems(1) have it: "?it < length xs" by arith
    show ?thesis
    proof (cases "f (xs ! ?it) < v")
      case lt: True
      have r: "lower_bound xs first cnt v (\<lambda>l a. f l < a)
          = lower_bound xs (?it + 1) (cnt - (?step + 1)) v (\<lambda>l a. f l < a)"
        using True lt by (subst lower_bound.simps) (simp add: Let_def)
      have e: "?it + 1 + (cnt - (?step + 1)) = first + cnt" using True by arith
      have "\<forall>i<?it + 1. f (xs ! i) < v"
      proof (intro allI impI)
        fix i assume "i < ?it + 1"
        then have "i \<le> ?it" by simp
        from mono [OF this it] lt show "f (xs ! i) < v" by simp
      qed
      moreover have "cnt - (?step + 1) < cnt" using True by arith
      ultimately show ?thesis
        unfolding r using less.prems by (intro less.IH) (simp_all only: e)
    next
      case ge: False
      have r: "lower_bound xs first cnt v (\<lambda>l a. f l < a)
          = lower_bound xs first ?step v (\<lambda>l a. f l < a)"
        using True ge by (subst lower_bound.simps) (simp add: Let_def)
      have "\<forall>i. ?it \<le> i \<and> i < length xs \<longrightarrow> v \<le> f (xs ! i)"
      proof (intro allI impI)
        fix i assume i: "?it \<le> i \<and> i < length xs"
        from ge have "v \<le> f (xs ! ?it)" by simp
        also from i have "\<dots> \<le> f (xs ! i)" by (intro mono) simp_all
        finally show "v \<le> f (xs ! i)" .
      qed
      moreover have "?step < cnt" using True by arith
      moreover have "?it \<le> length xs" using it by simp
      ultimately show ?thesis
        unfolding r using less.prems(2) by (intro less.IH) simp_all
    qed
  qed
qed

lemma find_first:
  assumes "i < length xs" and "P (xs ! i)" and "\<forall>j<i. \<not> P (xs ! j)"
  shows "find P xs = Some (xs ! i)"
  using assms by (auto simp: find_Some_iff)

lemma Dictionary_get_find:
  assumes srt: "sorted (map address (items d))" and cnt: "count_d d = length (items d)"
  shows "Dictionary_get d addr = map_option object (find (\<lambda>it. address it = addr) (items d))"
proof -
  let ?xs = "items d"
  let ?r = "lower_bound ?xs 0 (length ?xs) addr (\<lambda>l a. address l < a)"
  have sp: "?r \<le> length ?xs \<and> (\<forall>i<?r. address (?xs ! i) < addr) \<and>
      (\<forall>i. ?r \<le> i \<and> i < length ?xs \<longrightarrow> addr \<le> address (?xs ! i))"
    using srt by (intro lower_bound_spec) auto
  show ?thesis
  proof (cases "?r \<noteq> length ?xs \<and> address (?xs ! ?r) = addr")
    case True
    with sp have "?r < length ?xs" by simp
    moreover from sp have "\<forall>j<?r. \<not> address (?xs ! j) = addr" by auto
    ultimately have "find (\<lambda>it. address it = addr) ?xs = Some (?xs ! ?r)"
      using True by (intro find_first) simp_all
    with True cnt show ?thesis by (simp add: Dictionary_get_def Let_def)
  next
    case False
    have "\<not> address x = addr" if "x \<in> set ?xs" for x
    proof -
      from that obtain i where i: "i < length ?xs" "x = ?xs ! i"
        by (auto simp: in_set_conv_nth)
      show ?thesis
      proof (cases "i < ?r")
        case True
        with sp i show ?thesis by auto
      next
        case ge: False
        with i sp have r: "?r < length ?xs" by simp
        with False have "address (?xs ! ?r) \<noteq> addr" by simp
        moreover from sp r have "addr \<le> address (?xs ! ?r)" by simp
        ultimately have "addr < address (?xs ! ?r)" by simp
        also have "\<dots> \<le> address (?xs ! i)"
          using srt ge i by (simp add: sorted_iff_nth_mono)
        finally show ?thesis using i by simp
      qed
    qed
    then have "find (\<lambda>it. address it = addr) ?xs = None"
      by (simp add: find_None_iff)
    with False cnt show ?thesis by (auto simp: Dictionary_get_def Let_def)
  qed
qed

lemma compare_address_key: "\<forall>a b. compare_address a b = (address a < address b)"
  by (simp add: compare_address_def)

text \<open>
  C7. For every list of items, in any order, the dictionary that \<^verbatim>\<open>TDictionary\<close> builds
  stores the same items sorted ascending by address, and \<^verbatim>\<open>Dictionary::get(address)\<close>
  agrees, for every address, with a linear scan over the stored items: it returns the
  object of an item bearing that address when one is present and \<^verbatim>\<open>nullptr\<close> when none
  is.
\<close>

theorem C7_dictionary_sorted_lookup:
  "sorted (map address (items (TDictionary objects))) \<and>
   mset (items (TDictionary objects)) = mset objects \<and>
   count_d (TDictionary objects) = length objects \<and>
   (\<forall>addr. Dictionary_get (TDictionary objects) addr
      = map_option object (find (\<lambda>it. address it = addr) (items (TDictionary objects)))) \<and>
   (\<forall>addr. addr \<notin> address ` set objects \<longrightarrow> Dictionary_get (TDictionary objects) addr = None) \<and>
   (\<forall>addr. addr \<in> address ` set objects \<longrightarrow>
      (\<exists>it\<in>set objects. address it = addr
         \<and> Dictionary_get (TDictionary objects) addr = Some (object it)))"
proof -
  let ?d = "TDictionary objects"
  note sr = sort_range_spec [OF compare_address_key, of objects]
  have s: "sorted (map address (items ?d))" using sr by (simp add: TDictionary_def)
  have m: "mset (items ?d) = mset objects" using sr by (simp add: TDictionary_def)
  have c: "count_d ?d = length (items ?d)"
    using m by (metis TDictionary_def Dictionary.select_convs(1) size_mset)
  have l: "count_d ?d = length objects" by (simp add: TDictionary_def)
  have st: "set (items ?d) = set objects" using m by (rule mset_eq_setD)
  have g: "Dictionary_get ?d addr
      = map_option object (find (\<lambda>it. address it = addr) (items ?d))" for addr
    using s c by (rule Dictionary_get_find)
  have absent: "Dictionary_get ?d addr = None" if "addr \<notin> address ` set objects" for addr
  proof -
    from that st have "\<forall>x\<in>set (items ?d). \<not> address x = addr" by auto
    then have "find (\<lambda>it. address it = addr) (items ?d) = None"
      by (simp add: find_None_iff)
    then show ?thesis by (simp add: g)
  qed
  have present: "\<exists>it\<in>set objects. address it = addr \<and> Dictionary_get ?d addr = Some (object it)"
    if "addr \<in> address ` set objects" for addr
  proof -
    from that st have "\<exists>x\<in>set (items ?d). address x = addr" by auto
    then obtain it where f: "find (\<lambda>it. address it = addr) (items ?d) = Some it"
      by (cases "find (\<lambda>it. address it = addr) (items ?d)") (auto simp: find_None_iff)
    then have "it \<in> set (items ?d)" "address it = addr"
      by (auto simp: find_Some_iff)
    with st f show ?thesis by (auto simp: g)
  qed
  from s m l g absent present show ?thesis by blast
qed

theorem C7_dictionary_sorted_lookup_witness:
  "sorted (map address (items (TDictionary plant_items))) \<and>
   mset (items (TDictionary plant_items)) = mset plant_items \<and>
   Dictionary_get (TDictionary plant_items) 0x2000 = Some status_obj \<and>
   Dictionary_get (TDictionary plant_items) 0x1234 = None"
proof -
  note t = C7_dictionary_sorted_lookup [of plant_items]
  have a: "(0x1234 :: uint16_t) \<notin> address ` set plant_items"
    by (simp add: plant_items_def)
  have p: "(0x2000 :: uint16_t) \<in> address ` set plant_items"
    by (simp add: plant_items_def)
  from t have "\<forall>addr. addr \<notin> address ` set plant_items \<longrightarrow>
      Dictionary_get (TDictionary plant_items) addr = None" by blast
  with a have n: "Dictionary_get (TDictionary plant_items) 0x1234 = None" by blast
  from t have "\<forall>addr. addr \<in> address ` set plant_items \<longrightarrow>
      (\<exists>it\<in>set plant_items. address it = addr
         \<and> Dictionary_get (TDictionary plant_items) addr = Some (object it))" by blast
  with p have "\<exists>it\<in>set plant_items. address it = 0x2000
         \<and> Dictionary_get (TDictionary plant_items) 0x2000 = Some (object it)" by blast
  then have s: "Dictionary_get (TDictionary plant_items) 0x2000 = Some status_obj"
    by (auto simp: plant_items_def)
  from t n s show ?thesis by blast
qed

end
